theory Spec2Isabelle
  imports Main "HOL-Library.AList"
begin

section \<open>JavaScript values used by script.js\<close>

text \<open>
  A string is the list of the bytes of its UTF-8 encoding. The payload is the value
  returned by \<open>JSON.parse\<close>; the scalar fields of a raw entry are modelled as optional
  strings, where \<open>None\<close> stands for an absent, \<open>undefined\<close> or \<open>null\<close> field, so a payload
  that holds a number or an object in such a field is outside the model. Objects are
  association lists in the order in which \<open>Object.entries\<close> enumerates them. An exception
  is a value of \<open>js_error\<close>, and a function that can raise one returns a sum.
\<close>

datatype js_error = TypeError | SyntaxError | URIError | Error string

text \<open>Truthiness of an optional string and the operator \<open>v || d\<close>.\<close>

definition truthy :: "string option \<Rightarrow> bool" where
  "truthy v = (case v of None \<Rightarrow> False | Some s \<Rightarrow> s \<noteq> [])"

definition or_else :: "string option \<Rightarrow> string \<Rightarrow> string" where
  "or_else v d = (case v of None \<Rightarrow> d | Some s \<Rightarrow> if s \<noteq> [] then s else d)"

text \<open>\<open>x || y\<close> on the numbers returned by comparators.\<close>

definition or_num :: "int \<Rightarrow> int \<Rightarrow> int" where
  "or_num x y = (if x \<noteq> 0 then x else y)"

subsection \<open>String methods\<close>

text \<open>
  \<open>String.prototype.trim\<close> removes the white space and line terminator characters of
  ECMAScript from both ends. \<open>white_space\<close> lists their encodings: U+0009 to U+000D, U+0020,
  U+00A0, U+1680, U+2000 to U+200A, U+2028, U+2029, U+202F, U+205F, U+3000 and U+FEFF.
\<close>

definition white_space :: "string list" where
  "white_space =
     [[CHR 0x09], [CHR 0x0A], [CHR 0x0B], [CHR 0x0C], [CHR 0x0D], [CHR 0x20],
      [CHR 0xC2, CHR 0xA0],
      [CHR 0xE1, CHR 0x9A, CHR 0x80],
      [CHR 0xE2, CHR 0x80, CHR 0x80], [CHR 0xE2, CHR 0x80, CHR 0x81],
      [CHR 0xE2, CHR 0x80, CHR 0x82], [CHR 0xE2, CHR 0x80, CHR 0x83],
      [CHR 0xE2, CHR 0x80, CHR 0x84], [CHR 0xE2, CHR 0x80, CHR 0x85],
      [CHR 0xE2, CHR 0x80, CHR 0x86], [CHR 0xE2, CHR 0x80, CHR 0x87],
      [CHR 0xE2, CHR 0x80, CHR 0x88], [CHR 0xE2, CHR 0x80, CHR 0x89],
      [CHR 0xE2, CHR 0x80, CHR 0x8A],
      [CHR 0xE2, CHR 0x80, CHR 0xA8], [CHR 0xE2, CHR 0x80, CHR 0xA9],
      [CHR 0xE2, CHR 0x80, CHR 0xAF],
      [CHR 0xE2, CHR 0x81, CHR 0x9F],
      [CHR 0xE3, CHR 0x80, CHR 0x80],
      [CHR 0xEF, CHR 0xBB, CHR 0xBF]]"

text \<open>The rest of a string behind a given prefix, if it starts with it.\<close>

fun after_prefix :: "string \<Rightarrow> string \<Rightarrow> string option" where
  "after_prefix [] s = Some s"
| "after_prefix (p # ps) [] = None"
| "after_prefix (p # ps) (c # cs) = (if p = c then after_prefix ps cs else None)"

lemma after_prefix_length: "after_prefix w s = Some r \<Longrightarrow> length r + length w = length s"
  by (induction w s rule: after_prefix.induct) (auto split: if_splits)

text \<open>Removes, again and again, a leading occurrence of one of the given strings.\<close>

function strip_leading :: "string list \<Rightarrow> string \<Rightarrow> string" where
  "strip_leading ws s =
     (case List.find (\<lambda>w. w \<noteq> [] \<and> after_prefix w s \<noteq> None) ws of
        None \<Rightarrow> s
      | Some w \<Rightarrow> (case after_prefix w s of None \<Rightarrow> s | Some r \<Rightarrow> strip_leading ws r))"
  by pat_completeness auto

termination strip_leading
proof (relation "measure (\<lambda>(ws, s). length s)")
  show "wf (measure (\<lambda>(ws, s). length s))"
    by simp
next
  fix ws :: "string list" and s w r :: string
  assume "List.find (\<lambda>w. w \<noteq> [] \<and> after_prefix w s \<noteq> None) ws = Some w"
    and r: "after_prefix w s = Some r"
  then have "w \<noteq> []"
    by (auto simp: find_Some_iff)
  with after_prefix_length [OF r] show "((ws, r), (ws, s)) \<in> measure (\<lambda>(ws, s). length s)"
    by (cases w) auto
qed

declare strip_leading.simps [simp del]

definition trim :: "string \<Rightarrow> string" where
  "trim s = rev (strip_leading (map rev white_space) (rev (strip_leading white_space s)))"

fun split_on :: "char \<Rightarrow> string \<Rightarrow> string list" where
  "split_on d [] = [[]]"
| "split_on d (c # cs) =
     (if c = d then [] # split_on d cs
      else (case split_on d cs of [] \<Rightarrow> [[c]] | p # ps \<Rightarrow> (c # p) # ps))"

fun join :: "string \<Rightarrow> string list \<Rightarrow> string" where
  "join sep [] = []"
| "join sep [x] = x"
| "join sep (x # y # ys) = x @ sep @ join sep (y # ys)"

fun starts_with :: "string \<Rightarrow> string \<Rightarrow> bool" where
  "starts_with s [] = True"
| "starts_with [] (p # ps) = False"
| "starts_with (c # cs) (p # ps) = (c = p \<and> starts_with cs ps)"

fun includes_str :: "string \<Rightarrow> string \<Rightarrow> bool" where
  "includes_str [] t = (t = [])"
| "includes_str (c # cs) t = (starts_with (c # cs) t \<or> includes_str cs t)"

text \<open>Decimal rendering of a non-negative integer, as template literals produce it.\<close>

definition digit_char :: "nat \<Rightarrow> char" where
  "digit_char n = char_of (48 + n)"

fun show_nat :: "nat \<Rightarrow> string" where
  "show_nat n = (if n < 10 then [digit_char n] else show_nat (n div 10) @ [digit_char (n mod 10)])"

declare show_nat.simps [simp del]

subsection \<open>Sets, maps and sorting\<close>

text \<open>
  A JavaScript \<open>Set\<close> is a duplicate-free list in insertion order; a \<open>Map\<close> is an
  association list in insertion order, \<open>Map.set\<close> being \<open>AList.update\<close> (replace in
  place, or append) and \<open>Map.get\<close> being \<open>map_of\<close>.
\<close>

definition set_add :: "'a \<Rightarrow> 'a list \<Rightarrow> 'a list" where
  "set_add x xs = (if x \<in> set xs then xs else xs @ [x])"

definition new_Map :: "('k \<times> 'v) list \<Rightarrow> ('k \<times> 'v) list" where
  "new_Map kvs = foldl (\<lambda>m kv. AList.update (fst kv) (snd kv) m) [] kvs"

text \<open>
  \<open>Array.prototype.sort\<close> with a comparator is stable: an element moves in front of
  another one only when the comparator returns a positive number for the pair in their
  current order. For a consistent comparator every stable sort returns the list that
  insertion sort returns; for an inconsistent one the order is left to the engine.
\<close>

fun insert_by :: "('a \<Rightarrow> 'a \<Rightarrow> int) \<Rightarrow> 'a \<Rightarrow> 'a list \<Rightarrow> 'a list" where
  "insert_by cmp x [] = [x]"
| "insert_by cmp x (y # ys) = (if cmp x y \<le> 0 then x # y # ys else y # insert_by cmp x ys)"

definition sort_by :: "('a \<Rightarrow> 'a \<Rightarrow> int) \<Rightarrow> 'a list \<Rightarrow> 'a list" where
  "sort_by cmp xs = foldr (insert_by cmp) xs []"

subsection \<open>Browser built-ins\<close>

text \<open>
  Five built-ins are not part of the script and are taken as parameters:
  \<open>String.prototype.toLowerCase\<close> (the Unicode case mapping),
  \<open>String.prototype.localeCompare\<close> with base sensitivity, the parser behind
  \<open>new Date(string)\<close> (\<open>None\<close> for an invalid date, otherwise the time value in
  milliseconds), the text content of a parsed HTML fragment, and \<open>decodeURIComponent\<close>,
  which raises a \<open>URIError\<close> on a malformed escape sequence.
\<close>

record platform =
  toLowerCase :: "string \<Rightarrow> string"
  localeCompare :: "string \<Rightarrow> string \<Rightarrow> int"
  date_parse :: "string \<Rightarrow> int option"
  text_content :: "string \<Rightarrow> string"
  decodeURIComponent :: "string \<Rightarrow> js_error + string"

definition compareStrings :: "platform \<Rightarrow> string \<Rightarrow> string \<Rightarrow> int" where
  "compareStrings P a b = localeCompare P a b"

definition parseDate :: "platform \<Rightarrow> string \<Rightarrow> int" where
  "parseDate P v =
     (let cleaned = trim (map (\<lambda>c. if c = CHR ''-'' then CHR '' '' else c) v)
      in case date_parse P (if cleaned \<noteq> [] then cleaned else v) of
           None \<Rightarrow> 0
         | Some t \<Rightarrow> t)"

definition stripHtml :: "platform \<Rightarrow> string \<Rightarrow> string" where
  "stripHtml P html = text_content P html"

subsection \<open>createSlug\<close>

definition is_slug_char :: "char \<Rightarrow> bool" where
  "is_slug_char c =
     (let n = (of_char c :: nat) in (97 \<le> n \<and> n \<le> 122) \<or> (48 \<le> n \<and> n \<le> 57))"

text \<open>\<open>replace(/[^a-z0-9]+/g, "-")\<close>: every maximal run of other characters becomes one dash.\<close>

fun collapse_from :: "bool \<Rightarrow> string \<Rightarrow> string" where
  "collapse_from in_run [] = []"
| "collapse_from in_run (c # cs) =
     (if is_slug_char c then c # collapse_from False cs
      else if in_run then collapse_from True cs
      else CHR ''-'' # collapse_from True cs)"

definition collapse_runs :: "string \<Rightarrow> string" where
  "collapse_runs s = collapse_from False s"

text \<open>\<open>replace(/^-|-$/g, "")\<close>: one leading and one trailing dash are removed.\<close>

definition strip_edge_dashes :: "string \<Rightarrow> string" where
  "strip_edge_dashes s =
     (let s1 = (case s of [] \<Rightarrow> [] | c # cs \<Rightarrow> if c = CHR ''-'' then cs else s)
      in if s1 \<noteq> [] \<and> last s1 = CHR ''-'' then butlast s1 else s1)"

definition createSlug :: "platform \<Rightarrow> string \<Rightarrow> string" where
  "createSlug P v =
     (let s = strip_edge_dashes (collapse_runs (toLowerCase P (trim v)))
      in if s \<noteq> [] then s else ''resource'')"

section \<open>The raw payload\<close>

text \<open>
  A raw entry carries the fields read by \<open>normaliseResources\<close>. Field names are those of
  the JSON payload; the fields \<open>type\<close>, \<open>name\<close>, \<open>download\<close>, \<open>default\<close> and \<open>icon\<close> of a
  download option carry the prefix \<open>option_\<close>, and the fields \<open>context\<close> and \<open>notes\<close> are \<open>entry_context\<close> and \<open>entry_notes\<close>.
\<close>

record api_desc =
  api_name :: "string option"
  api_description :: "string option"

record raw_option =
  option_type :: "string option"
  option_name :: "string option"
  option_download :: "string option"
  option_default :: "string option"
  option_icon :: "string option"

text \<open>
  The value of \<open>options\<close>, when present, is an array of options, each an object or
  \<open>null\<close>, or a boolean, a number, a string, or an object whose properties are strings.
\<close>

datatype options_value =
    OptionsArray "raw_option option list"
  | OptionsBool bool
  | OptionsNumber int
  | OptionsString string
  | OptionsObject "(string \<times> string) list"

record raw_entry =
  document_number :: "string option"
  api_description :: "api_desc option"
  options :: "options_value option"
  entry_context :: "string option"
  lifecycle_status :: "string option"
  version_info :: "string option"
  release_info :: "string option"
  published_date :: "string option"
  entry_notes :: "string option"

text \<open>
  The value of one group (the variable \<open>entries\<close>) is an array of entries, each an object
  or \<open>null\<close>, or some other JSON value. The value of one category (\<open>groupedResources\<close>) is
  \<open>null\<close>, an array or an object, and the payload is \<open>null\<close>/\<open>undefined\<close> or an object.
\<close>

datatype group_value =
    GNull
  | GNumber int
  | GString string
  | GArray "raw_entry option list"

datatype category_value =
    CNull
  | CArray "group_value list"
  | CObject "(string \<times> group_value) list"

datatype payload =
    PNull
  | PObject "(string \<times> category_value) list"

text \<open>\<open>Object.entries(payload || {})\<close> and \<open>Object.values(groupedResources || {})\<close>.\<close>

definition payload_entries :: "payload \<Rightarrow> (string \<times> category_value) list" where
  "payload_entries p = (case p of PNull \<Rightarrow> [] | PObject kvs \<Rightarrow> kvs)"

definition category_values :: "category_value \<Rightarrow> group_value list" where
  "category_values g = (case g of CNull \<Rightarrow> [] | CArray gs \<Rightarrow> gs | CObject kvs \<Rightarrow> map snd kvs)"

section \<open>The normalised model\<close>

text \<open>
  \<open>download_option\<close>, \<open>version_rec\<close> and \<open>document\<close> are the objects built by
  \<open>normaliseResources\<close>; \<open>doc_acc\<close> is the accumulator object kept in \<open>documentsByKey\<close>
  (its fields carry the prefix \<open>acc_\<close>). The field \<open>id\<close> of a document is \<open>doc_id\<close>.
\<close>

record download_option =
  dl_type :: string
  dl_name :: string
  downloadUrl :: string
  dl_default :: string
  dl_icon :: string

record version_rec =
  version :: string
  release :: string
  v_lifecycle :: string
  published :: string
  v_notes :: string
  v_options :: "download_option list"

record doc_acc =
  acc_key :: string
  acc_documentNumber :: string
  acc_apiName :: string
  acc_description :: string
  acc_categories :: "string list"
  acc_contexts :: "string list"
  acc_lifecycle :: "string list"
  acc_versions :: "(string \<times> version_rec) list"

record document =
  doc_id :: string
  key :: string
  documentNumber :: string
  apiName :: string
  description :: string
  categories :: "string list"
  contexts :: "string list"
  lifecycle :: "string list"
  versions :: "version_rec list"
  optionTypes :: "string list"
  primaryType :: string
  latestPublished :: int
  searchIndex :: string

section \<open>normaliseResources: folding the entries\<close>

text \<open>Optional chaining: \<open>entry?.f\<close> is \<open>Option.bind entry f\<close>.\<close>

definition entry_api_name :: "raw_entry option \<Rightarrow> string option" where
  "entry_api_name entry = Option.bind (Option.bind entry api_description) api_name"

definition entry_api_description :: "raw_entry option \<Rightarrow> string option" where
  "entry_api_description entry =
     Option.bind (Option.bind entry api_description) api_desc.api_description"

text \<open>
  \<open>entry?.options?.[0]?.name\<close>. Element 0 of a boolean or a number is undefined, element
  0 of a string is a one-character string or undefined, and element 0 of an object is its
  property \<open>"0"\<close>, a string or undefined; none of them has a name.
\<close>

definition first_option_name :: "raw_entry option \<Rightarrow> string option" where
  "first_option_name entry =
     (case Option.bind entry options of
        None \<Rightarrow> None
      | Some (OptionsArray []) \<Rightarrow> None
      | Some (OptionsArray (x # _)) \<Rightarrow> Option.bind x option_name
      | Some (OptionsBool b) \<Rightarrow> None
      | Some (OptionsNumber n) \<Rightarrow> None
      | Some (OptionsString s) \<Rightarrow> None
      | Some (OptionsObject kvs) \<Rightarrow> None)"

text \<open>The three constants computed at the head of the callback (lines 154 to 156).\<close>

definition entry_documentNumber :: "raw_entry option \<Rightarrow> string" where
  "entry_documentNumber entry =
     or_else (Option.bind entry document_number)
       (or_else (entry_api_name entry)
          (or_else (first_option_name entry) ''Untitled''))"

definition entry_apiName :: "raw_entry option \<Rightarrow> string" where
  "entry_apiName entry = or_else (entry_api_name entry) (entry_documentNumber entry)"

definition entry_key :: "raw_entry option \<Rightarrow> string" where
  "entry_key entry =
     (let documentNumber = entry_documentNumber entry; apiName = entry_apiName entry
      in if documentNumber \<noteq> [] then documentNumber else apiName)"

definition new_doc :: "raw_entry option \<Rightarrow> doc_acc" where
  "new_doc entry =
     \<lparr>acc_key = entry_key entry,
      acc_documentNumber = entry_documentNumber entry,
      acc_apiName = entry_apiName entry,
      acc_description = or_else (entry_api_description entry) [],
      acc_categories = [],
      acc_contexts = [],
      acc_lifecycle = [],
      acc_versions = []\<rparr>"

text \<open>
  \<open>String(entry.context).split(",").map(trim).filter(Boolean)\<close>, for a truthy context.
\<close>

definition context_values :: "raw_entry option \<Rightarrow> string list" where
  "context_values entry =
     (case Option.bind entry entry_context of
        None \<Rightarrow> []
      | Some c \<Rightarrow> if c \<noteq> [] then filter (\<lambda>v. v \<noteq> []) (map trim (split_on CHR '','' c)) else [])"

definition lifecycle_values :: "raw_entry option \<Rightarrow> string list" where
  "lifecycle_values entry =
     (if truthy (Option.bind entry lifecycle_status)
      then [or_else (Option.bind entry lifecycle_status) []] else [])"

definition make_option :: "raw_option option \<Rightarrow> download_option" where
  "make_option opt =
     \<lparr>dl_type = or_else (Option.bind opt option_type) [],
      dl_name = or_else (Option.bind opt option_name) ''Download'',
      downloadUrl = or_else (Option.bind opt option_download) [],
      dl_default = or_else (Option.bind opt option_default) [],
      dl_icon = or_else (Option.bind opt option_icon) []\<rparr>"

definition new_version :: "raw_entry option \<Rightarrow> version_rec" where
  "new_version entry =
     \<lparr>version = or_else (Option.bind entry version_info) ''Unversioned'',
      release = or_else (Option.bind entry release_info) [],
      v_lifecycle = or_else (Option.bind entry lifecycle_status) [],
      published = or_else (Option.bind entry published_date) [],
      v_notes = or_else (Option.bind entry entry_notes) [],
      v_options = []\<rparr>"

text \<open>\<open>if (!x && y) x = y\<close> on a string field.\<close>

definition first_wins :: "string \<Rightarrow> string option \<Rightarrow> string" where
  "first_wins current v = (if current = [] \<and> truthy v then or_else v [] else current)"

text \<open>
  \<open>(entry?.options || []).forEach\<close> (line 218): the array that is visited. An absent
  value, \<open>false\<close>, zero and the empty string are falsy and give the empty array; \<open>true\<close>,
  a number other than zero, a non-empty string and an object have no \<open>forEach\<close> method,
  and the call raises a \<open>TypeError\<close>.
\<close>

definition options_forEach :: "raw_entry option \<Rightarrow> js_error + raw_option option list" where
  "options_forEach entry =
     (case Option.bind entry options of
        None \<Rightarrow> Inr []
      | Some (OptionsArray os) \<Rightarrow> Inr os
      | Some (OptionsBool b) \<Rightarrow> if b then Inl TypeError else Inr []
      | Some (OptionsNumber n) \<Rightarrow> if n = 0 then Inr [] else Inl TypeError
      | Some (OptionsString s) \<Rightarrow> if s = [] then Inr [] else Inl TypeError
      | Some (OptionsObject kvs) \<Rightarrow> Inl TypeError)"

text \<open>Lines 204 to 226: the merge into the version object, then the options pushed.\<close>

definition merge_version :: "raw_entry option \<Rightarrow> version_rec \<Rightarrow> js_error + version_rec" where
  "merge_version entry v =
     (let v1 = v\<lparr>release := first_wins (release v) (Option.bind entry release_info),
                  v_lifecycle := first_wins (v_lifecycle v) (Option.bind entry lifecycle_status),
                  published := first_wins (published v) (Option.bind entry published_date),
                  v_notes := first_wins (v_notes v) (Option.bind entry entry_notes)\<rparr>
      in case options_forEach entry of
           Inl e \<Rightarrow> Inl e
         | Inr os \<Rightarrow> Inr (v1\<lparr>v_options := v_options v1 @ map make_option os\<rparr>))"

text \<open>
  Lines 192 to 226. A version absent from the map is created and then fetched again, so
  the merge applies to the fresh object; \<open>AList.update\<close> appends it at the place where
  \<open>Map.set\<close> put it.
\<close>

definition fold_version ::
  "raw_entry option \<Rightarrow> (string \<times> version_rec) list \<Rightarrow> js_error + (string \<times> version_rec) list" where
  "fold_version entry vs =
     (let versionKey = or_else (Option.bind entry version_info) ''Unversioned'';
          v = (case map_of vs versionKey of None \<Rightarrow> new_version entry | Some v \<Rightarrow> v)
      in case merge_version entry v of
           Inl e \<Rightarrow> Inl e
         | Inr v' \<Rightarrow> Inr (AList.update versionKey v' vs))"

text \<open>Lines 171 to 226: what one entry does to the accumulator object of its key.\<close>

definition merge_doc :: "string \<Rightarrow> raw_entry option \<Rightarrow> doc_acc \<Rightarrow> js_error + doc_acc" where
  "merge_doc categoryName entry doc =
     (let d1 = doc\<lparr>acc_description := first_wins (acc_description doc) (entry_api_description entry),
                    acc_categories :=
                      (if categoryName \<noteq> [] then set_add categoryName (acc_categories doc)
                       else acc_categories doc),
                    acc_contexts := foldl (\<lambda>s c. set_add c s) (acc_contexts doc) (context_values entry),
                    acc_lifecycle := foldl (\<lambda>s c. set_add c s) (acc_lifecycle doc) (lifecycle_values entry)\<rparr>
      in case fold_version entry (acc_versions doc) of
           Inl e \<Rightarrow> Inl e
         | Inr vs \<Rightarrow> Inr (d1\<lparr>acc_versions := vs\<rparr>))"

text \<open>
  The body of the innermost callback (lines 153 to 227). As for versions, an accumulator
  absent from \<open>documentsByKey\<close> is created, fetched again and merged, and ends up at the
  end of the map, where \<open>Map.set\<close> put it. An exception leaves the callback and
  \<open>normaliseResources\<close>, and the map, local to the function, is lost.
\<close>

definition fold_entry ::
  "string \<Rightarrow> raw_entry option \<Rightarrow> (string \<times> doc_acc) list \<Rightarrow> js_error + (string \<times> doc_acc) list" where
  "fold_entry categoryName entry documentsByKey =
     (let k = entry_key entry;
          doc = (case map_of documentsByKey k of None \<Rightarrow> new_doc entry | Some d \<Rightarrow> d)
      in case merge_doc categoryName entry doc of
           Inl e \<Rightarrow> Inl e
         | Inr doc' \<Rightarrow> Inr (AList.update k doc' documentsByKey))"

text \<open>
  \<open>entries.forEach\<close> exists only on an array; on any other value the call raises a
  \<open>TypeError\<close>. On an array the callback runs on the entries in order, up to the first
  exception.
\<close>

fun fold_entries ::
  "string \<Rightarrow> raw_entry option list \<Rightarrow> (string \<times> doc_acc) list \<Rightarrow> js_error + (string \<times> doc_acc) list" where
  "fold_entries categoryName [] m = Inr m"
| "fold_entries categoryName (entry # rest) m =
     (case fold_entry categoryName entry m of
        Inl e \<Rightarrow> Inl e
      | Inr m' \<Rightarrow> fold_entries categoryName rest m')"

definition forEach_entries ::
  "string \<Rightarrow> group_value \<Rightarrow> (string \<times> doc_acc) list \<Rightarrow> js_error + (string \<times> doc_acc) list" where
  "forEach_entries categoryName entries m =
     (case entries of
        GArray es \<Rightarrow> fold_entries categoryName es m
      | _ \<Rightarrow> Inl TypeError)"

fun fold_groups ::
  "string \<Rightarrow> group_value list \<Rightarrow> (string \<times> doc_acc) list \<Rightarrow> js_error + (string \<times> doc_acc) list" where
  "fold_groups categoryName [] m = Inr m"
| "fold_groups categoryName (g # gs) m =
     (case forEach_entries categoryName g m of
        Inl e \<Rightarrow> Inl e
      | Inr m' \<Rightarrow> fold_groups categoryName gs m')"

fun fold_categories ::
  "(string \<times> category_value) list \<Rightarrow> (string \<times> doc_acc) list \<Rightarrow> js_error + (string \<times> doc_acc) list" where
  "fold_categories [] m = Inr m"
| "fold_categories ((categoryName, groupedResources) # rest) m =
     (case fold_groups categoryName (category_values groupedResources) m of
        Inl e \<Rightarrow> Inl e
      | Inr m' \<Rightarrow> fold_categories rest m')"

section \<open>normaliseResources: building the documents\<close>

text \<open>
  The loop of lines 235 to 238. \<open>usedSlugs\<close> is the list of slugs handed out so far, so
  \<open>usedSlugs.size\<close> is its length. Every round makes the slug longer, and a slug longer
  than all used ones is free.
\<close>

function unique_slug :: "string list \<Rightarrow> string \<Rightarrow> string" where
  "unique_slug usedSlugs slug =
     (if slug \<in> set usedSlugs
      then unique_slug usedSlugs (slug @ ''-'' @ show_nat (length usedSlugs + 1))
      else slug)"
  by pat_completeness auto

lemma member_length_le_sum: "x \<in> set xs \<Longrightarrow> length x \<le> sum_list (map length xs)"
  by (induction xs) auto

termination unique_slug
proof (relation "measure (\<lambda>(used, slug). Suc (sum_list (map length used)) - length slug)")
  show "wf (measure (\<lambda>(used, slug). Suc (sum_list (map length used)) - length slug))"
    by simp
next
  fix usedSlugs :: "string list" and slug :: string
  assume "slug \<in> set usedSlugs"
  then have "length slug \<le> sum_list (map length usedSlugs)"
    by (rule member_length_le_sum)
  then show "((usedSlugs, slug @ ''-'' @ show_nat (length usedSlugs + 1)), (usedSlugs, slug))
      \<in> measure (\<lambda>(used, slug). Suc (sum_list (map length used)) - length slug)"
    by simp
qed

declare unique_slug.simps [simp del]

definition version_cmp :: "platform \<Rightarrow> version_rec \<Rightarrow> version_rec \<Rightarrow> int" where
  "version_cmp P a b =
     (let dateDiff = parseDate P (published b) - parseDate P (published a)
      in if dateDiff \<noteq> 0 then dateDiff else compareStrings P (version b) (version a))"

definition option_cmp :: "platform \<Rightarrow> download_option \<Rightarrow> download_option \<Rightarrow> int" where
  "option_cmp P a b =
     or_num (compareStrings P (dl_type a) (dl_type b)) (compareStrings P (dl_name a) (dl_name b))"

definition document_cmp :: "platform \<Rightarrow> document \<Rightarrow> document \<Rightarrow> int" where
  "document_cmp P a b =
     or_num (compareStrings P (documentNumber a) (documentNumber b))
       (compareStrings P (apiName a) (apiName b))"

definition str_or :: "string \<Rightarrow> string \<Rightarrow> string" where
  "str_or a b = (if a \<noteq> [] then a else b)"

definition sorted_versions :: "platform \<Rightarrow> doc_acc \<Rightarrow> version_rec list" where
  "sorted_versions P doc =
     map (\<lambda>v. v\<lparr>v_options := sort_by (option_cmp P) (v_options v)\<rparr>)
       (sort_by (version_cmp P) (map snd (acc_versions doc)))"

definition option_types :: "version_rec list \<Rightarrow> string list" where
  "option_types vs =
     foldl (\<lambda>s v. foldl (\<lambda>s opt. if dl_type opt \<noteq> [] then set_add (dl_type opt) s else s) s (v_options v))
       [] vs"

text \<open>The object pushed at lines 275 to 289, for the slug chosen for the key.\<close>

definition make_document :: "platform \<Rightarrow> string \<Rightarrow> string \<Rightarrow> doc_acc \<Rightarrow> document" where
  "make_document P slug k doc =
     (let vs = sorted_versions P doc;
          optionTypesList = sort_by (compareStrings P) (option_types vs);
          contextsList = sort_by (compareStrings P) (acc_contexts doc);
          latest = foldl (\<lambda>acc v. max acc (parseDate P (published v))) 0 vs;
          searchParts =
            [acc_documentNumber doc, acc_apiName doc, acc_description doc,
             join '' '' (acc_categories doc), join '' '' contextsList,
             join '' '' (acc_lifecycle doc), join '' '' (map version vs),
             join '' '' optionTypesList]
      in \<lparr>doc_id = slug,
          key = k,
          documentNumber = str_or (acc_documentNumber doc) k,
          apiName = str_or (acc_apiName doc) (str_or (acc_documentNumber doc) k),
          description = acc_description doc,
          categories = sort_by (compareStrings P) (acc_categories doc),
          contexts = contextsList,
          lifecycle = sort_by (compareStrings P) (acc_lifecycle doc),
          versions = vs,
          optionTypes = optionTypesList,
          primaryType = (case optionTypesList of [] \<Rightarrow> [] | t # _ \<Rightarrow> t),
          latestPublished = latest,
          searchIndex = toLowerCase P (stripHtml P (join '' '' searchParts))\<rparr>)"

text \<open>\<open>documentsByKey.forEach\<close> (lines 234 to 290), threading \<open>usedSlugs\<close>.\<close>

fun build_documents ::
  "platform \<Rightarrow> (string \<times> doc_acc) list \<Rightarrow> string list \<Rightarrow> document list" where
  "build_documents P [] usedSlugs = []"
| "build_documents P ((k, doc) # rest) usedSlugs =
     (let slug = unique_slug usedSlugs (createSlug P k)
      in make_document P slug k doc # build_documents P rest (usedSlugs @ [slug]))"

definition normaliseResources :: "platform \<Rightarrow> payload \<Rightarrow> js_error + document list" where
  "normaliseResources P p =
     (case fold_categories (payload_entries p) [] of
        Inl e \<Rightarrow> Inl e
      | Inr documentsByKey \<Rightarrow> Inr (sort_by (document_cmp P) (build_documents P documentsByKey [])))"

text \<open>\<open>new Map(state.documents.map((doc) => [doc.id, doc]))\<close> (line 129).\<close>

definition document_map :: "document list \<Rightarrow> (string \<times> document) list" where
  "document_map docs = new_Map (map (\<lambda>d. (doc_id d, d)) docs)"

section \<open>The payload loader\<close>

definition API_URL :: string where
  "API_URL = ''./index.json''"

text \<open>
  \<open>encodeURIComponent\<close> keeps letters, digits and \<open>- _ . ! ~ * ' ( )\<close> and writes every
  other byte as a percent sign and two upper-case hexadecimal digits.
\<close>

definition is_unreserved :: "char \<Rightarrow> bool" where
  "is_unreserved c =
     (let n = (of_char c :: nat)
      in (65 \<le> n \<and> n \<le> 90) \<or> (97 \<le> n \<and> n \<le> 122) \<or> (48 \<le> n \<and> n \<le> 57) \<or>
         c \<in> set ''-_.!~*'()'')"

definition hex_digit :: "nat \<Rightarrow> char" where
  "hex_digit n = (if n < 10 then char_of (48 + n) else char_of (55 + n))"

definition encodeURIComponent :: "string \<Rightarrow> string" where
  "encodeURIComponent s =
     concat (map (\<lambda>c. if is_unreserved c then [c]
                       else [CHR ''%'', hex_digit ((of_char c :: nat) div 16),
                             hex_digit ((of_char c :: nat) mod 16)]) s)"

definition getApiSources :: "string list" where
  "getApiSources =
     [API_URL, ''https://corsproxy.io/?'' @ encodeURIComponent API_URL,
      ''https://r.jina.ai/'' @ API_URL]"

text \<open>
  The network is a parameter: \<open>fetch\<close> maps a source to a rejection or to a response,
  whose \<open>text()\<close> is again a rejection or the body; \<open>JSON.parse\<close> maps a body to a
  \<open>SyntaxError\<close> or to the data.
\<close>

record response =
  ok :: bool
  status :: nat
  body_text :: "js_error + string"

text \<open>The body of the \<open>try\<close> block (lines 104 to 111) for one source.\<close>

definition try_source ::
  "(string \<Rightarrow> js_error + response) \<Rightarrow> (string \<Rightarrow> js_error + 'd) \<Rightarrow> string \<Rightarrow> js_error + 'd" where
  "try_source fetch json_parse source =
     (case fetch source of
        Inl e \<Rightarrow> Inl e
      | Inr r \<Rightarrow>
          if \<not> ok r then Inl (Error (''Request failed with '' @ show_nat (status r)))
          else (case body_text r of
                  Inl e \<Rightarrow> Inl e
                | Inr body \<Rightarrow> json_parse body))"

text \<open>
  The loop of \<open>loadPayload\<close>, with \<open>lastError\<close> as an accumulator. The first component
  of the result lists the sources that were fetched, in order.
\<close>

fun load_from ::
  "(string \<Rightarrow> js_error + response) \<Rightarrow> (string \<Rightarrow> js_error + 'd) \<Rightarrow> string list \<Rightarrow>
   js_error option \<Rightarrow> string list \<times> (js_error + 'd \<times> string)" where
  "load_from fetch json_parse [] lastError =
     ([], Inl (case lastError of
                 Some e \<Rightarrow> e
               | None \<Rightarrow> Error ''Unable to reach TMF resource index.''))"
| "load_from fetch json_parse (source # rest) lastError =
     (case try_source fetch json_parse source of
        Inr data \<Rightarrow> ([source], Inr (data, source))
      | Inl e \<Rightarrow>
          (let r = load_from fetch json_parse rest (Some e) in (source # fst r, snd r)))"

definition loadPayload ::
  "(string \<Rightarrow> js_error + response) \<Rightarrow> (string \<Rightarrow> js_error + 'd) \<Rightarrow>
   string list \<times> (js_error + 'd \<times> string)" where
  "loadPayload fetch json_parse = load_from fetch json_parse getApiSources None"

section \<open>Application state, filters and routing\<close>

text \<open>
  \<open>app\<close> holds the fields of the global \<open>state\<close> object (\<open>pageSize\<close> is never assigned
  and is the constant below; \<open>apiSource\<close> is only drawn), followed by the parts of the window and of the page that
  the router reads or writes: the URL fragment, the number of \<open>hashchange\<close> events
  raised and not yet delivered, the status banner, and the detail view (\<open>detail_content\<close>
  is the id of the document drawn by \<open>renderDetail\<close>, \<open>None\<close> when the view is empty).
  The page elements looked up in \<open>elements\<close> are taken to exist. The drawing of cards,
  breadcrumb and pagination controls changes none of these fields and is left out.
\<close>

datatype view = IndexView | DetailView

record route =
  view :: view
  route_id :: "string option"

record app =
  documents :: "document list"
  filtered :: "document list"
  documentMap :: "(string \<times> document) list"
  currentPage :: nat
  searchTerm :: string
  currentSort :: string
  activeCategory :: string
  activeDomain :: string
  route :: route
  location_hash :: string
  pending_hashchange :: nat
  status_hidden :: bool
  status_message :: string
  status_error :: bool
  detail_hidden :: bool
  detail_content :: "string option"

definition pageSize :: nat where
  "pageSize = 10"

definition index_route :: route where
  "index_route = \<lparr>view = IndexView, route_id = None\<rparr>"

text \<open>\<open>Math.ceil(n / pageSize)\<close> on a length.\<close>

definition ceil_pages :: "nat \<Rightarrow> nat" where
  "ceil_pages n = (n + pageSize - 1) div pageSize"

definition setStatus :: "string \<Rightarrow> bool \<Rightarrow> bool \<Rightarrow> app \<Rightarrow> app" where
  "setStatus message isError hide s =
     (if hide then s\<lparr>status_hidden := True\<rparr>
      else s\<lparr>status_hidden := False, status_message := message, status_error := isError\<rparr>)"

text \<open>Lines 363 to 371 of \<open>renderIndex\<close>; the rest of the function draws the page.\<close>

definition renderIndex :: "app \<Rightarrow> app" where
  "renderIndex s =
     (let totalItems = length (filtered s);
          totalPages = (if totalItems \<noteq> 0 then ceil_pages totalItems else 0);
          s1 = (if totalPages \<noteq> 0 \<and> currentPage s > totalPages
                then s\<lparr>currentPage := totalPages\<rparr> else s)
      in if totalPages = 0 then s1\<lparr>currentPage := 1\<rparr> else s1)"

definition renderDetail :: "document \<Rightarrow> app \<Rightarrow> app" where
  "renderDetail doc s = s\<lparr>detail_content := Some (doc_id doc)\<rparr>"

definition index_hashes :: "string list" where
  "index_hashes = [''#/'', [], ''#'']"

text \<open>
  \<open>renderRoute\<close> and \<open>navigateToIndex\<close> call each other. Assigning a new fragment to
  \<open>window.location.hash\<close> raises a \<open>hashchange\<close> event, delivered after the current
  handler has returned.
\<close>

function renderRoute :: "app \<Rightarrow> app" and navigateToIndex :: "app \<Rightarrow> app" where
  "renderRoute s =
     (if documents s = []
      then renderIndex (s\<lparr>detail_hidden := (view (route s) \<noteq> DetailView)\<rparr>)
      else if view (route s) = DetailView
      then (case Option.bind (route_id (route s)) (map_of (documentMap s)) of
              None \<Rightarrow>
                navigateToIndex
                  (setStatus ''The requested API could not be found.'' True False
                     (s\<lparr>detail_hidden := False\<rparr>))
            | Some doc \<Rightarrow>
                if \<not> list_ex (\<lambda>item. Some (doc_id item) = route_id (route s)) (filtered s)
                then navigateToIndex (s\<lparr>detail_hidden := False\<rparr>)
                else renderIndex (renderDetail doc (s\<lparr>detail_hidden := False\<rparr>)))
      else renderIndex (s\<lparr>detail_hidden := True, detail_content := None\<rparr>))"
| "navigateToIndex s =
     (if location_hash s \<in> set index_hashes
      then renderRoute (s\<lparr>route := index_route\<rparr>)
      else s\<lparr>location_hash := ''#/'', pending_hashchange := pending_hashchange s + 1\<rparr>)"
  by pat_completeness auto

termination
  by (relation "measure (\<lambda>x. case x of
          Inl s \<Rightarrow> (if view (route s) = DetailView then 2 else 0)
        | Inr s \<Rightarrow> 1)")
     (auto simp: index_route_def)

declare renderRoute.simps [simp del] navigateToIndex.simps [simp del]

text \<open>\<open>parseHash\<close> applied to the current fragment.\<close>

definition parseHash :: "platform \<Rightarrow> string \<Rightarrow> js_error + route" where
  "parseHash P h =
     (let hash = trim (case h of [] \<Rightarrow> [] | c # cs \<Rightarrow> if c = CHR ''#'' then cs else h)
      in if hash = [] \<or> hash = ''/'' then Inr index_route
         else (case filter (\<lambda>part. part \<noteq> []) (split_on CHR ''/'' hash) of
                 p0 # p1 # _ \<Rightarrow>
                   if p0 = ''document''
                   then (case decodeURIComponent P p1 of
                           Inl e \<Rightarrow> Inl e
                         | Inr i \<Rightarrow> Inr \<lparr>view = DetailView, route_id = Some i\<rparr>)
                   else Inr index_route
               | _ \<Rightarrow> Inr index_route))"

text \<open>
  \<open>handleRouteChange\<close>; an exception of \<open>parseHash\<close> leaves the handler before the state
  is written.
\<close>

definition handleRouteChange :: "platform \<Rightarrow> app \<Rightarrow> js_error + app" where
  "handleRouteChange P s =
     (case parseHash P (location_hash s) of
        Inl e \<Rightarrow> Inl e
      | Inr r \<Rightarrow>
          (let previousRoute = route s;
               s1 = s\<lparr>route := r\<rparr>;
               s2 = (if view previousRoute \<noteq> view r then s1\<lparr>currentPage := 1\<rparr> else s1)
           in Inr (renderRoute s2)))"

text \<open>Delivery of one pending \<open>hashchange\<close> event to its listener.\<close>

definition deliver_hashchange :: "platform \<Rightarrow> app \<Rightarrow> js_error + app" where
  "deliver_hashchange P s =
     (if pending_hashchange s = 0 then Inr s
      else handleRouteChange P (s\<lparr>pending_hashchange := pending_hashchange s - 1\<rparr>))"

subsection \<open>Filtering and sorting\<close>

definition matches_filters :: "app \<Rightarrow> document \<Rightarrow> bool" where
  "matches_filters s doc =
     (if \<not> (activeCategory s = ''all'' \<or> activeCategory s \<in> set (categories doc)) then False
      else if \<not> (activeDomain s = ''all'' \<or> activeDomain s \<in> set (contexts doc)) then False
      else if searchTerm s = [] then True
      else includes_str (searchIndex doc) (searchTerm s))"

definition sortDocuments :: "platform \<Rightarrow> app \<Rightarrow> document list \<Rightarrow> document list" where
  "sortDocuments P s items =
     (if currentSort s = ''type''
      then sort_by (\<lambda>a b. or_num (compareStrings P (primaryType a) (primaryType b))
                                 (compareStrings P (apiName a) (apiName b))) items
      else if currentSort s = ''date''
      then sort_by (\<lambda>a b. or_num (latestPublished b - latestPublished a)
                                 (compareStrings P (apiName a) (apiName b))) items
      else sort_by (\<lambda>a b. or_num (compareStrings P (apiName a) (apiName b))
                                 (compareStrings P (documentNumber a) (documentNumber b))) items)"

definition applyFilters :: "platform \<Rightarrow> app \<Rightarrow> app" where
  "applyFilters P s =
     (let s1 = s\<lparr>filtered := sortDocuments P s (filter (matches_filters s) (documents s))\<rparr>;
          maxPages = ceil_pages (max (length (filtered s1)) 1);
          s2 = (if currentPage s1 > maxPages then s1\<lparr>currentPage := 1\<rparr> else s1)
      in renderRoute s2)"

text \<open>The listeners attached to the search box and to the three select elements.\<close>

definition on_search_input :: "platform \<Rightarrow> string \<Rightarrow> app \<Rightarrow> app" where
  "on_search_input P v s = applyFilters P (s\<lparr>searchTerm := toLowerCase P (trim v), currentPage := 1\<rparr>)"

definition on_category_change :: "platform \<Rightarrow> string \<Rightarrow> app \<Rightarrow> app" where
  "on_category_change P v s = applyFilters P (s\<lparr>activeCategory := v, currentPage := 1\<rparr>)"

definition on_domain_change :: "platform \<Rightarrow> string \<Rightarrow> app \<Rightarrow> app" where
  "on_domain_change P v s = applyFilters P (s\<lparr>activeDomain := v, currentPage := 1\<rparr>)"

definition on_sort_change :: "platform \<Rightarrow> string \<Rightarrow> app \<Rightarrow> app" where
  "on_sort_change P v s = applyFilters P (s\<lparr>currentSort := v, currentPage := 1\<rparr>)"

text \<open>The listeners of the two pagination buttons.\<close>

definition on_prev_page :: "app \<Rightarrow> app" where
  "on_prev_page s =
     (if currentPage s > 1 then renderRoute (s\<lparr>currentPage := currentPage s - 1\<rparr>) else s)"

definition on_next_page :: "app \<Rightarrow> app" where
  "on_next_page s =
     (let c = ceil_pages (length (filtered s));
          totalPages = (if c \<noteq> 0 then c else 1)
      in if currentPage s < totalPages then renderRoute (s\<lparr>currentPage := currentPage s + 1\<rparr>)
         else s)"

text \<open>
  The state at page load (lines 3 to 15) on a page opened with fragment \<open>h\<close>, the banner
  hidden and the detail view empty.
\<close>

definition initial_app :: "string \<Rightarrow> app" where
  "initial_app h =
     \<lparr>documents = [], filtered = [], documentMap = [], currentPage = 1, searchTerm = [],
      currentSort = ''name'', activeCategory = ''all'', activeDomain = ''all'',
      route = index_route, location_hash = h, pending_hashchange = 0,
      status_hidden = True, status_message = [], status_error = False,
      detail_hidden = True, detail_content = None\<rparr>"

section \<open>Notions used to state the properties\<close>

text \<open>
  The entries of a payload in the order in which the three nested \<open>forEach\<close> loops visit
  them, each with the name of its category; a group that is not an array has none.
  \<open>all_arrays\<close> says that every group value of the payload is an array.
\<close>

definition group_entries :: "group_value \<Rightarrow> raw_entry option list" where
  "group_entries g = (case g of GArray es \<Rightarrow> es | _ \<Rightarrow> [])"

definition is_array :: "group_value \<Rightarrow> bool" where
  "is_array g = (case g of GArray es \<Rightarrow> True | _ \<Rightarrow> False)"

definition category_flat :: "string \<Rightarrow> category_value \<Rightarrow> (string \<times> raw_entry option) list" where
  "category_flat c g = concat (map (\<lambda>gv. map (Pair c) (group_entries gv)) (category_values g))"

definition flat_entries :: "payload \<Rightarrow> (string \<times> raw_entry option) list" where
  "flat_entries p = concat (map (\<lambda>cg. category_flat (fst cg) (snd cg)) (payload_entries p))"

definition all_arrays :: "payload \<Rightarrow> bool" where
  "all_arrays p = list_all (\<lambda>cg. list_all is_array (category_values (snd cg))) (payload_entries p)"

text \<open>
  The options of an entry can be iterated when the value of \<open>options\<close> is absent, an array,
  \<open>false\<close>, zero or the empty string; \<open>option_items\<close> are the options then visited.
  \<open>all_iterable\<close> says that the options of every entry of the payload can be iterated.
\<close>

definition options_iterable :: "raw_entry option \<Rightarrow> bool" where
  "options_iterable entry =
     (case entry of
        None \<Rightarrow> True
      | Some e \<Rightarrow>
          (case options e of
             None \<Rightarrow> True
           | Some (OptionsArray os) \<Rightarrow> True
           | Some (OptionsBool b) \<Rightarrow> \<not> b
           | Some (OptionsNumber n) \<Rightarrow> n = 0
           | Some (OptionsString s) \<Rightarrow> s = []
           | Some (OptionsObject kvs) \<Rightarrow> False))"

definition option_items :: "raw_entry option \<Rightarrow> raw_option option list" where
  "option_items entry =
     (case entry of
        None \<Rightarrow> []
      | Some e \<Rightarrow> (case options e of Some (OptionsArray os) \<Rightarrow> os | _ \<Rightarrow> []))"

definition all_iterable :: "payload \<Rightarrow> bool" where
  "all_iterable p = list_all (\<lambda>ce. options_iterable (snd ce)) (flat_entries p)"

text \<open>
  What the callback does to a version, to the versions of a document, to an accumulator
  and to the map when the options of its entry can be iterated.
\<close>

definition merged_version :: "raw_entry option \<Rightarrow> version_rec \<Rightarrow> version_rec" where
  "merged_version entry v =
     v\<lparr>release := first_wins (release v) (Option.bind entry release_info),
       v_lifecycle := first_wins (v_lifecycle v) (Option.bind entry lifecycle_status),
       published := first_wins (published v) (Option.bind entry published_date),
       v_notes := first_wins (v_notes v) (Option.bind entry entry_notes),
       v_options := v_options v @ map make_option (option_items entry)\<rparr>"

definition merged_versions ::
  "raw_entry option \<Rightarrow> (string \<times> version_rec) list \<Rightarrow> (string \<times> version_rec) list" where
  "merged_versions entry vs =
     (let versionKey = or_else (Option.bind entry version_info) ''Unversioned'';
          v = (case map_of vs versionKey of None \<Rightarrow> new_version entry | Some v \<Rightarrow> v)
      in AList.update versionKey (merged_version entry v) vs)"

definition merged_doc :: "string \<Rightarrow> raw_entry option \<Rightarrow> doc_acc \<Rightarrow> doc_acc" where
  "merged_doc categoryName entry doc =
     doc\<lparr>acc_description := first_wins (acc_description doc) (entry_api_description entry),
         acc_categories :=
           (if categoryName \<noteq> [] then set_add categoryName (acc_categories doc)
            else acc_categories doc),
         acc_contexts := foldl (\<lambda>s c. set_add c s) (acc_contexts doc) (context_values entry),
         acc_lifecycle := foldl (\<lambda>s c. set_add c s) (acc_lifecycle doc) (lifecycle_values entry),
         acc_versions := merged_versions entry (acc_versions doc)\<rparr>"

definition folded_entry ::
  "string \<Rightarrow> raw_entry option \<Rightarrow> (string \<times> doc_acc) list \<Rightarrow> (string \<times> doc_acc) list" where
  "folded_entry categoryName entry documentsByKey =
     (let k = entry_key entry;
          doc = (case map_of documentsByKey k of None \<Rightarrow> new_doc entry | Some d \<Rightarrow> d)
      in AList.update k (merged_doc categoryName entry doc) documentsByKey)"

text \<open>
  \<open>fold_all\<close> folds a list of entries into the map, \<open>contributors\<close> selects the entries of
  one key, and \<open>doc_of\<close> is the accumulator that the entries of one key build on their
  own: the object created for the first of them, merged with each of them in turn.
\<close>

definition fold_all ::
  "(string \<times> raw_entry option) list \<Rightarrow> (string \<times> doc_acc) list \<Rightarrow> (string \<times> doc_acc) list" where
  "fold_all es m = foldl (\<lambda>m ce. folded_entry (fst ce) (snd ce) m) m es"

definition contributors ::
  "(string \<times> raw_entry option) list \<Rightarrow> string \<Rightarrow> (string \<times> raw_entry option) list" where
  "contributors es k = filter (\<lambda>ce. entry_key (snd ce) = k) es"

definition doc_of :: "(string \<times> raw_entry option) list \<Rightarrow> doc_acc" where
  "doc_of cs =
     (case cs of
        [] \<Rightarrow> new_doc None
      | ce # _ \<Rightarrow> foldl (\<lambda>d ce. merged_doc (fst ce) (snd ce) d) (new_doc (snd ce)) cs)"

text \<open>
  Likewise \<open>version_of\<close> is the version object that the entries of one version label build
  on their own.
\<close>

definition version_of :: "raw_entry option list \<Rightarrow> version_rec" where
  "version_of es =
     (case es of
        [] \<Rightarrow> new_version None
      | e # _ \<Rightarrow> foldl (\<lambda>v e. merged_version e v) (new_version e) es)"

text \<open>
  A comparator is usable for sorting when "returns at most 0" is a total preorder.
\<close>

definition total_preorder :: "('a \<Rightarrow> 'a \<Rightarrow> int) \<Rightarrow> bool" where
  "total_preorder cmp =
     ((\<forall>a b. cmp a b \<le> 0 \<or> cmp b a \<le> 0) \<and>
      (\<forall>a b c. cmp a b \<le> 0 \<longrightarrow> cmp b c \<le> 0 \<longrightarrow> cmp a c \<le> 0))"

text \<open>
  The first non-empty value of a list of optional strings, the empty string when there is
  none; \<open>first_description\<close> is the same for the descriptions of a list of entries.
\<close>

fun first_non_empty :: "string option list \<Rightarrow> string" where
  "first_non_empty [] = []"
| "first_non_empty (v # vs) = (if truthy v then or_else v [] else first_non_empty vs)"

fun first_description :: "raw_entry option list \<Rightarrow> string" where
  "first_description [] = []"
| "first_description (e # es) =
     (if truthy (entry_api_description e) then or_else (entry_api_description e) []
      else first_description es)"

text \<open>
  The dedup key in the words of the specification, read off the fields of the raw entry:
  the document number if present, else the API name, else the name of the first option,
  else the literal "Untitled". A field that is absent or the empty string is not present,
  and reads as the empty string here; a null entry has no field, and only an array of
  options has a first option.
\<close>

definition spec_document_number :: "raw_entry \<Rightarrow> string" where
  "spec_document_number e = (case document_number e of None \<Rightarrow> [] | Some s \<Rightarrow> s)"

definition spec_api_name :: "raw_entry \<Rightarrow> string" where
  "spec_api_name e =
     (case api_description e of
        None \<Rightarrow> []
      | Some a \<Rightarrow> (case api_name a of None \<Rightarrow> [] | Some s \<Rightarrow> s))"

definition spec_first_option_name :: "raw_entry \<Rightarrow> string" where
  "spec_first_option_name e =
     (case options e of
        Some (OptionsArray (Some x # rest)) \<Rightarrow> (case option_name x of None \<Rightarrow> [] | Some s \<Rightarrow> s)
      | _ \<Rightarrow> [])"

definition spec_key :: "raw_entry option \<Rightarrow> string" where
  "spec_key entry =
     (case entry of
        None \<Rightarrow> ''Untitled''
      | Some e \<Rightarrow>
          if spec_document_number e \<noteq> [] then spec_document_number e
          else if spec_api_name e \<noteq> [] then spec_api_name e
          else if spec_first_option_name e \<noteq> [] then spec_first_option_name e
          else ''Untitled'')"

text \<open>
  The keys of a payload in the order of their first appearance: the order in which
  \<open>documentsByKey\<close> holds them, and in which the slugs are assigned.
\<close>

definition key_order :: "payload \<Rightarrow> string list" where
  "key_order p = rev (remdups (rev (map (\<lambda>ce. entry_key (snd ce)) (flat_entries p))))"

text \<open>
  The candidates for the id of a key: the slug base followed by \<open>n\<close> copies of a suffix.
\<close>

definition slug_candidate :: "string \<Rightarrow> string \<Rightarrow> nat \<Rightarrow> string" where
  "slug_candidate base suffix n = base @ concat (replicate n suffix)"

text \<open>
  The defaults in the words of the specification. A field is \<open>absent\<close> when it is missing,
  null or the empty string; \<open>given_or\<close> is the field when it is not absent, and the default
  otherwise; \<open>version_label\<close> is the label under which an entry files its version,
  \<open>default_option\<close> the download option made from a raw option, and \<open>version_entries\<close>
  are the entries of a payload with a given key and version label, in the order of the
  payload.
\<close>

definition absent :: "string option \<Rightarrow> bool" where
  "absent v = (v = None \<or> v = Some [])"

definition given_or :: "string option \<Rightarrow> string \<Rightarrow> string" where
  "given_or v d = (case v of None \<Rightarrow> d | Some s \<Rightarrow> if s = [] then d else s)"

definition version_label :: "raw_entry option \<Rightarrow> string" where
  "version_label entry =
     (case entry of None \<Rightarrow> ''Unversioned'' | Some e \<Rightarrow> given_or (version_info e) ''Unversioned'')"

definition default_option :: "raw_option option \<Rightarrow> download_option" where
  "default_option opt =
     (case opt of
        None \<Rightarrow>
          \<lparr>dl_type = [], dl_name = ''Download'', downloadUrl = [], dl_default = [], dl_icon = []\<rparr>
      | Some x \<Rightarrow>
          \<lparr>dl_type = given_or (option_type x) [],
           dl_name = given_or (option_name x) ''Download'',
           downloadUrl = given_or (option_download x) [],
           dl_default = given_or (option_default x) [],
           dl_icon = given_or (option_icon x) []\<rparr>)"

definition version_entries :: "payload \<Rightarrow> string \<Rightarrow> string \<Rightarrow> raw_entry option list" where
  "version_entries p k l =
     filter (\<lambda>e. version_label e = l) (map snd (contributors (flat_entries p) k))"

text \<open>
  \<open>scalar_group\<close> says that some group of the payload has a string or a number as its
  value.
\<close>

definition is_scalar :: "group_value \<Rightarrow> bool" where
  "is_scalar g = (case g of GString s \<Rightarrow> True | GNumber n \<Rightarrow> True | _ \<Rightarrow> False)"

definition scalar_group :: "payload \<Rightarrow> bool" where
  "scalar_group p = list_ex (\<lambda>cg. list_ex is_scalar (category_values (snd cg))) (payload_entries p)"

text \<open>
  The collision scheme in the words of the specification: a numeric suffix seeded by the
  count of slugs already used and incremented until the slug is unique. Among the
  \<open>length usedSlugs + 1\<close> candidates tried, one is free.
\<close>

definition spec_incrementing_slug :: "string list \<Rightarrow> string \<Rightarrow> string" where
  "spec_incrementing_slug usedSlugs base =
     (if base \<notin> set usedSlugs then base
      else (case find (\<lambda>cand. cand \<notin> set usedSlugs)
                   (map (\<lambda>n. base @ ''-'' @ show_nat n)
                      [length usedSlugs + 1 ..< 2 * length usedSlugs + 2]) of
              Some cand \<Rightarrow> cand
            | None \<Rightarrow> base))"

text \<open>
  The string handed to the date parser by \<open>parseDate\<close>.
\<close>

definition cleaned_date :: "string \<Rightarrow> string" where
  "cleaned_date v =
     (let cleaned = trim (map (\<lambda>c. if c = CHR ''-'' then CHR '' '' else c) v)
      in if cleaned \<noteq> [] then cleaned else v)"

text \<open>
  The notice of \<open>renderRoute\<close> for an unknown id; \<open>same_status\<close> says that the banner of the
  second state is that of the first. \<open>redirected_to_index\<close> describes the two ways in which
  \<open>navigateToIndex\<close> leads from a state to the index route: at once, when the fragment is
  already an index fragment, or by assigning the fragment \<open>#/\<close>, so that the delivery of
  the \<open>hashchange\<close> event sets the index route and empties the detail view.
\<close>

definition not_found_notice :: string where
  "not_found_notice = ''The requested API could not be found.''"

definition same_status :: "app \<Rightarrow> app \<Rightarrow> bool" where
  "same_status s s' =
     (status_hidden s' = status_hidden s \<and> status_message s' = status_message s \<and>
      status_error s' = status_error s)"

definition redirected_to_index :: "platform \<Rightarrow> app \<Rightarrow> app \<Rightarrow> bool" where
  "redirected_to_index P s s' =
     (if location_hash s \<in> set index_hashes
      then route s' = index_route \<and> detail_content s' = None \<and>
           location_hash s' = location_hash s \<and> pending_hashchange s' = pending_hashchange s
      else route s' = route s \<and> detail_content s' = detail_content s \<and>
           location_hash s' = ''#/'' \<and> pending_hashchange s' = pending_hashchange s + 1 \<and>
           (case deliver_hashchange P s' of
              Inl e \<Rightarrow> False
            | Inr s'' \<Rightarrow> route s'' = index_route \<and> detail_content s'' = None \<and>
                location_hash s'' = ''#/'' \<and> pending_hashchange s'' = pending_hashchange s \<and>
                same_status s' s''))"

section \<open>Sample inputs\<close>

text \<open>
  A platform for concrete runs, for strings of ASCII characters: lower-casing maps the
  letters A to Z, strings compare by their lower-cased character codes, the date parser
  knows three dates (as UTC midnights) and rejects every other string, text content is the
  text itself (markup-free strings), and no escape sequence is malformed.
\<close>

definition ascii_lower :: "string \<Rightarrow> string" where
  "ascii_lower s =
     map (\<lambda>c. let n = (of_char c :: nat) in if 65 \<le> n \<and> n \<le> 90 then char_of (n + 32) else c) s"

fun compare_codes :: "nat list \<Rightarrow> nat list \<Rightarrow> int" where
  "compare_codes [] [] = 0"
| "compare_codes [] (y # ys) = - 1"
| "compare_codes (x # xs) [] = 1"
| "compare_codes (x # xs) (y # ys) =
     (if x < y then - 1 else if y < x then 1 else compare_codes xs ys)"

definition ascii_compare :: "string \<Rightarrow> string \<Rightarrow> int" where
  "ascii_compare a b =
     compare_codes (map of_char (ascii_lower a)) (map of_char (ascii_lower b))"

definition sample_dates :: "string \<Rightarrow> int option" where
  "sample_dates =
     map_of [(''2023 01 01'', 1672531200000), (''2024 06 15'', 1718409600000),
             (''1965 01 01'', - 157766400000)]"

definition sample_platform :: platform where
  "sample_platform =
     \<lparr>toLowerCase = ascii_lower, localeCompare = ascii_compare, date_parse = sample_dates, text_content = (\<lambda>s. s), decodeURIComponent = Inr\<rparr>"

text \<open>
  Payloads: one entry without any field; one document number under two categories; three
  keys with the same slug base; two versions, one undated and one dated 1965; a group
  whose value is a string; an entry whose options are an object; four entries whose keys
  come from the document number, the API name, the first option and the placeholder; and
  two entries of one key and version, of which only the second has a release and options.
\<close>

definition blank_entry :: raw_entry where
  "blank_entry =
     \<lparr>document_number = None, api_description = None, options = None, entry_context = None,
      lifecycle_status = None, version_info = None, release_info = None,
      published_date = None, entry_notes = None\<rparr>"

definition untitled_payload :: payload where
  "untitled_payload = PObject [(''Open APIs'', CObject [(''misc'', GArray [Some blank_entry])])]"

definition catalog_payload :: payload where
  "catalog_payload =
     PObject
       [(''Open APIs'', CObject
           [(''TMF620'', GArray
               [Some (blank_entry\<lparr>document_number := Some ''TMF620'',
                                   entry_context := Some ''Product, Catalog'',
                                   lifecycle_status := Some ''Production'',
                                   version_info := Some ''v4'',
                                   published_date := Some ''2023-01-01''\<rparr>)])]),
        (''Archive'', CObject
           [(''old'', GArray
               [Some (blank_entry\<lparr>document_number := Some ''TMF620'',
                                   api_description := Some \<lparr>api_name = Some ''Product Catalog'',
                                       api_description = Some ''Catalog management''\<rparr>,
                                   entry_context := Some ''Catalog,Sales'',
                                   lifecycle_status := Some ''Deprecated'',
                                   version_info := Some ''v5'',
                                   published_date := Some ''2024-06-15''\<rparr>)])])]"

definition slug_payload :: payload where
  "slug_payload =
     PObject
       [(''Open APIs'', CObject
           [(''misc'', GArray
               [Some (blank_entry\<lparr>document_number := Some ''a-3''\<rparr>),
                Some (blank_entry\<lparr>document_number := Some ''a''\<rparr>),
                Some (blank_entry\<lparr>document_number := Some ''a!''\<rparr>)])])]"

definition epoch_payload :: payload where
  "epoch_payload =
     PObject
       [(''Open APIs'', CObject
           [(''TMF620'', GArray
               [Some (blank_entry\<lparr>document_number := Some ''TMF620'', version_info := Some ''1.0''\<rparr>),
                Some (blank_entry\<lparr>document_number := Some ''TMF620'', version_info := Some ''0.9'',
                                   published_date := Some ''1965-01-01''\<rparr>)])])]"

definition pending_group_payload :: payload where
  "pending_group_payload = PObject [(''Open APIs'', CObject [(''TMF620'', GString ''pending'')])]"

definition options_object_payload :: payload where
  "options_object_payload =
     PObject
       [(''Open APIs'', CObject
           [(''TMF620'', GArray
               [Some (blank_entry\<lparr>document_number := Some ''TMF620'',
                                   options := Some (OptionsObject [(''name'', ''Spec'')])\<rparr>)])])]"

definition spec_option :: raw_option where
  "spec_option =
     \<lparr>option_type = None, option_name = Some ''Spec'', option_download = None,
      option_default = None, option_icon = None\<rparr>"

definition numbered_entry :: raw_entry where
  "numbered_entry =
     blank_entry\<lparr>document_number := Some ''TMF620'',
                  api_description := Some \<lparr>api_name = Some ''Product Catalog'', api_description = None\<rparr>,
                  options := Some (OptionsArray [Some spec_option])\<rparr>"

definition named_entry :: raw_entry where
  "named_entry =
     blank_entry\<lparr>document_number := Some [],
                  api_description := Some \<lparr>api_name = Some ''Party'', api_description = None\<rparr>,
                  options := Some (OptionsArray [Some spec_option])\<rparr>"

definition option_entry :: raw_entry where
  "option_entry =
     blank_entry\<lparr>api_description := Some \<lparr>api_name = None, api_description = None\<rparr>,
                  options := Some (OptionsArray [Some spec_option, None])\<rparr>"

definition key_payload :: payload where
  "key_payload =
     PObject
       [(''Open APIs'', CObject
           [(''misc'', GArray
               [Some numbered_entry, Some named_entry, Some option_entry, Some blank_entry])])]"

definition partial_payload :: payload where
  "partial_payload =
     PObject
       [([], CObject
           [(''TMF620'', GArray
               [Some (blank_entry\<lparr>document_number := Some ''TMF620''\<rparr>),
                Some (blank_entry\<lparr>document_number := Some ''TMF620'',
                                   release_info := Some ''R19'',
                                   options := Some (OptionsArray
                                     [None,
                                      Some \<lparr>option_type = Some ''pdf'', option_name = None,
                                            option_download = Some ''tmf620.pdf'',
                                            option_default = None, option_icon = None\<rparr>])\<rparr>)])])]"

text \<open>
  The document that \<open>catalog_payload\<close> normalises to, and application states loaded with it.
\<close>

definition catalog_document :: document where
  "catalog_document =
     \<lparr>doc_id = ''tmf620'', key = ''TMF620'', documentNumber = ''TMF620'', apiName = ''TMF620'',
      description = ''Catalog management'',
      categories = [''Archive'', ''Open APIs''],
      contexts = [''Catalog'', ''Product'', ''Sales''],
      lifecycle = [''Deprecated'', ''Production''],
      versions =
        [\<lparr>version = ''v5'', release = [], v_lifecycle = ''Deprecated'',
           published = ''2024-06-15'', v_notes = [], v_options = []\<rparr>,
         \<lparr>version = ''v4'', release = [], v_lifecycle = ''Production'',
           published = ''2023-01-01'', v_notes = [], v_options = []\<rparr>],
      optionTypes = [], primaryType = [], latestPublished = 1718409600000,
      searchIndex =
        ''tmf620 tmf620 catalog management open apis archive catalog product sales production deprecated v5 v4 ''\<rparr>"

definition detail_route :: "string \<Rightarrow> route" where
  "detail_route i = \<lparr>view = DetailView, route_id = Some i\<rparr>"

definition loaded_app :: "string \<Rightarrow> route \<Rightarrow> document list \<Rightarrow> app" where
  "loaded_app h r shown =
     (initial_app h)\<lparr>documents := [catalog_document], filtered := shown,
        documentMap := document_map [catalog_document], route := r\<rparr>"

text \<open>
  Networks: one where only the first proxy answers, and one where every source answers
  with status 403; a parser that accepts the empty object only.
\<close>

definition blocked_fetch :: "string \<Rightarrow> js_error + response" where
  "blocked_fetch src =
     (if src = ''https://corsproxy.io/?.%2Findex.json''
      then Inr \<lparr>ok = True, status = 200, body_text = Inr ''{}''\<rparr>
      else Inl TypeError)"

definition refusing_fetch :: "string \<Rightarrow> js_error + response" where
  "refusing_fetch src = Inr \<lparr>ok = False, status = 403, body_text = Inr []\<rparr>"

definition tiny_parse :: "string \<Rightarrow> js_error + payload" where
  "tiny_parse body = (if body = ''{}'' then Inr (PObject []) else Inl SyntaxError)"

section \<open>Auxiliary lemmas\<close>

subsection \<open>Sorting\<close>

lemma set_insert_by: "set (insert_by c x xs) = insert x (set xs)"
  by (induction xs) auto

lemma set_sort_by: "set (sort_by c xs) = set xs"
  by (induction xs) (simp_all add: sort_by_def set_insert_by)

lemma length_insert_by: "length (insert_by c x xs) = Suc (length xs)"
  by (induction xs) auto

lemma length_sort_by: "length (sort_by c xs) = length xs"
  by (induction xs) (simp_all add: sort_by_def length_insert_by)

lemma distinct_map_insert_by:
  "distinct (map f (insert_by c x xs)) = (f x \<notin> f ` set xs \<and> distinct (map f xs))"
  by (induction xs) (auto simp: set_insert_by)

lemma distinct_map_sort_by: "distinct (map f (sort_by c xs)) = distinct (map f xs)"
  by (induction xs) (simp_all add: sort_by_def distinct_map_insert_by set_sort_by [unfolded sort_by_def])


lemma sorted_insert_by:
  assumes "total_preorder cmp" and "sorted_wrt (\<lambda>a b. cmp a b \<le> 0) xs"
  shows "sorted_wrt (\<lambda>a b. cmp a b \<le> 0) (insert_by cmp x xs)"
  using assms(2)
proof (induction xs)
  case Nil
  then show ?case by simp
next
  case (Cons y ys)
  show ?case
  proof (cases "cmp x y \<le> 0")
    case True
    have "\<forall>z\<in>set ys. cmp x z \<le> 0"
      using Cons.prems True assms(1) unfolding total_preorder_def by (metis sorted_wrt.simps(2))
    with True Cons.prems show ?thesis by simp
  next
    case False
    then have "cmp y x \<le> 0"
      using assms(1) unfolding total_preorder_def by blast
    with False Cons show ?thesis
      by (auto simp: set_insert_by)
  qed
qed

lemma sorted_sort_by:
  "total_preorder cmp \<Longrightarrow> sorted_wrt (\<lambda>a b. cmp a b \<le> 0) (sort_by cmp xs)"
  by (induction xs) (simp_all add: sort_by_def sorted_insert_by)

subsection \<open>Slugs and the document map\<close>

lemma unique_slug_fresh: "unique_slug used slug \<notin> set used"
proof (induction used slug rule: unique_slug.induct)
  case (1 usedSlugs slug)
  then show ?case
    by (cases "slug \<in> set usedSlugs") (simp_all add: unique_slug.simps [of usedSlugs slug])
qed

lemma unique_slug_shape:
  "\<exists>n. unique_slug used slug =
          slug @ concat (replicate n (''-'' @ show_nat (length used + 1))) \<and>
        (\<forall>j<n. slug @ concat (replicate j (''-'' @ show_nat (length used + 1))) \<in> set used)"
proof (induction used slug rule: unique_slug.induct)
  case (1 usedSlugs slug)
  let ?suf = "''-'' @ show_nat (length usedSlugs + 1)"
  show ?case
  proof (cases "slug \<in> set usedSlugs")
    case False
    then have "unique_slug usedSlugs slug = slug"
      by (simp add: unique_slug.simps [of usedSlugs slug])
    then show ?thesis
      by (intro exI [of _ 0]) simp
  next
    case True
    from "1.IH" [OF True] obtain n where
      n: "unique_slug usedSlugs (slug @ ?suf) = (slug @ ?suf) @ concat (replicate n ?suf)"
      and below: "\<forall>j<n. (slug @ ?suf) @ concat (replicate j ?suf) \<in> set usedSlugs"
      by auto
    have u: "unique_slug usedSlugs slug = unique_slug usedSlugs (slug @ ?suf)"
      using True by (simp add: unique_slug.simps [of usedSlugs slug])
    have "\<forall>j<Suc n. slug @ concat (replicate j ?suf) \<in> set usedSlugs"
    proof (intro allI impI)
      fix j assume "j < Suc n"
      show "slug @ concat (replicate j ?suf) \<in> set usedSlugs"
      proof (cases j)
        case 0
        with True show ?thesis by simp
      next
        case (Suc k)
        with \<open>j < Suc n\<close> have "k < n" by simp
        with below have "(slug @ ?suf) @ concat (replicate k ?suf) \<in> set usedSlugs" by blast
        with Suc show ?thesis by simp
      qed
    qed
    moreover have "unique_slug usedSlugs slug = slug @ concat (replicate (Suc n) ?suf)"
      using u n by simp
    ultimately show ?thesis by blast
  qed
qed

lemma keys_build_documents: "map key (build_documents P m used) = map fst m"
  by (induction m arbitrary: used) (auto simp: make_document_def Let_def)

lemma ids_build_documents:
  "distinct (map doc_id (build_documents P m used)) \<and>
   set (map doc_id (build_documents P m used)) \<inter> set used = {}"
proof (induction m arbitrary: used)
  case Nil
  then show ?case by simp
next
  case (Cons kd m)
  obtain k d where kd: "kd = (k, d)" by (cases kd)
  let ?slug = "unique_slug used (createSlug P k)"
  have fresh: "?slug \<notin> set used" by (rule unique_slug_fresh)
  have id: "doc_id (make_document P ?slug k d) = ?slug"
    by (simp add: make_document_def Let_def)
  from Cons.IH [of "used @ [?slug]"] fresh id show ?case
    by (auto simp: kd Let_def)
qed

lemma update_fresh: "k \<notin> fst ` set al \<Longrightarrow> AList.update k v al = al @ [(k, v)]"
  by (induction al) auto

lemma new_Map_distinct: "distinct (map fst kvs) \<Longrightarrow> new_Map kvs = kvs"
proof (induction kvs rule: rev_induct)
  case Nil
  then show ?case by (simp add: new_Map_def)
next
  case (snoc kv kvs)
  then have "new_Map kvs = kvs" and "fst kv \<notin> fst ` set kvs"
    by auto
  then show ?case
    using update_fresh [of "fst kv" kvs "snd kv"] by (simp add: new_Map_def)
qed

lemma document_map_lookup:
  assumes "distinct (map doc_id docs)" and "d \<in> set docs"
  shows "map_of (document_map docs) (doc_id d) = Some d"
proof -
  let ?kvs = "map (\<lambda>d. (doc_id d, d)) docs"
  have m: "map fst ?kvs = map doc_id docs"
    by (simp add: comp_def)
  with assms(1) have dist: "distinct (map fst ?kvs)"
    by (simp only:)
  then have dm: "document_map docs = ?kvs"
    unfolding document_map_def by (rule new_Map_distinct)
  have "(doc_id d, d) \<in> set ?kvs"
    using assms(2) by auto
  with dist have "map_of ?kvs (doc_id d) = Some d"
    by (rule map_of_is_SomeI)
  with dm show ?thesis by (simp only:)
qed

subsection \<open>The traversal of the payload\<close>

lemma options_forEach_eq:
  "options_forEach entry = (if options_iterable entry then Inr (option_items entry) else Inl TypeError)"
  by (cases entry)
    (auto simp: options_forEach_def options_iterable_def option_items_def
      split: option.splits options_value.splits)

lemma merge_version_eq:
  "merge_version entry v = (if options_iterable entry then Inr (merged_version entry v) else Inl TypeError)"
  by (simp add: merge_version_def merged_version_def options_forEach_eq Let_def)

lemma fold_version_eq:
  "fold_version entry vs = (if options_iterable entry then Inr (merged_versions entry vs) else Inl TypeError)"
  by (simp add: fold_version_def merged_versions_def merge_version_eq Let_def)

lemma merge_doc_eq:
  "merge_doc c entry d = (if options_iterable entry then Inr (merged_doc c entry d) else Inl TypeError)"
  by (simp add: merge_doc_def merged_doc_def fold_version_eq Let_def)

lemma fold_entry_eq:
  "fold_entry c entry m = (if options_iterable entry then Inr (folded_entry c entry m) else Inl TypeError)"
  by (simp add: fold_entry_def folded_entry_def merge_doc_eq Let_def)

lemma fold_all_append: "fold_all (xs @ ys) m = fold_all ys (fold_all xs m)"
  by (simp add: fold_all_def)

lemma fold_entries_eq:
  "fold_entries c es m =
     (if list_all options_iterable es then Inr (fold_all (map (Pair c) es) m) else Inl TypeError)"
  by (induction es arbitrary: m) (simp_all add: fold_entry_eq fold_all_def)

lemma forEach_entries_eq:
  "forEach_entries c g m =
     (if is_array g \<and> list_all options_iterable (group_entries g)
      then Inr (fold_all (map (Pair c) (group_entries g)) m) else Inl TypeError)"
  by (cases g) (simp_all add: forEach_entries_def is_array_def group_entries_def fold_entries_eq)

lemma fold_groups_eq:
  "fold_groups c gs m =
     (if list_all is_array gs \<and> list_all options_iterable (concat (map group_entries gs))
      then Inr (fold_all (concat (map (\<lambda>gv. map (Pair c) (group_entries gv)) gs)) m)
      else Inl TypeError)"
proof (induction gs arbitrary: m)
  case Nil
  then show ?case by (simp add: fold_all_def)
next
  case (Cons g gs)
  show ?case
  proof (cases "is_array g \<and> list_all options_iterable (group_entries g)")
    case False
    then have "forEach_entries c g m = Inl TypeError"
      by (simp add: forEach_entries_eq)
    with False show ?thesis by auto
  next
    case True
    then have "forEach_entries c g m = Inr (fold_all (map (Pair c) (group_entries g)) m)"
      by (simp add: forEach_entries_eq)
    with True Cons.IH show ?thesis
      by (simp add: fold_all_append)
  qed
qed

lemma list_all_snd_Pair: "list_all (\<lambda>ce. Q (snd ce)) (map (Pair c) xs) = list_all Q xs"
  by (induction xs) simp_all

lemma iterable_pairs:
  "list_all (\<lambda>ce. options_iterable (snd ce)) (concat (map (\<lambda>gv. map (Pair c) (group_entries gv)) gs)) =
     list_all options_iterable (concat (map group_entries gs))"
  by (induction gs) (simp_all add: list_all_snd_Pair)

lemma iterable_category_flat:
  "list_all (\<lambda>ce. options_iterable (snd ce)) (category_flat c g) =
     list_all options_iterable (concat (map group_entries (category_values g)))"
  unfolding category_flat_def by (rule iterable_pairs)

lemma fold_categories_eq:
  "fold_categories kvs m =
     (if list_all (\<lambda>cg. list_all is_array (category_values (snd cg))) kvs \<and>
         list_all (\<lambda>ce. options_iterable (snd ce))
           (concat (map (\<lambda>cg. category_flat (fst cg) (snd cg)) kvs))
      then Inr (fold_all (concat (map (\<lambda>cg. category_flat (fst cg) (snd cg)) kvs)) m)
      else Inl TypeError)"
proof (induction kvs arbitrary: m)
  case Nil
  then show ?case by (simp add: fold_all_def)
next
  case (Cons cg kvs)
  obtain c g where cg: "cg = (c, g)" by (cases cg)
  show ?case
  proof (cases "list_all is_array (category_values g) \<and>
      list_all (\<lambda>ce. options_iterable (snd ce)) (category_flat c g)")
    case False
    then have "fold_groups c (category_values g) m = Inl TypeError"
      by (simp add: fold_groups_eq iterable_category_flat)
    with False show ?thesis by (auto simp: cg)
  next
    case True
    then have "list_all is_array (category_values g) \<and>
        list_all options_iterable (concat (map group_entries (category_values g)))"
      by (simp add: iterable_category_flat)
    then have "fold_groups c (category_values g) m = Inr (fold_all (category_flat c g) m)"
      by (simp add: fold_groups_eq category_flat_def)
    with True Cons.IH show ?thesis
      by (simp add: cg fold_all_append)
  qed
qed

lemma fold_categories_payload:
  "fold_categories (payload_entries p) [] =
     (if all_arrays p \<and> all_iterable p then Inr (fold_all (flat_entries p) []) else Inl TypeError)"
  by (simp add: fold_categories_eq all_arrays_def all_iterable_def flat_entries_def)

subsection \<open>The accumulator of one key\<close>

lemma distinct_folded_entry: "distinct (map fst m) \<Longrightarrow> distinct (map fst (folded_entry c e m))"
  by (simp add: folded_entry_def Let_def distinct_update)

lemma map_of_folded_entry:
  "map_of (folded_entry c e m) k =
     (if k = entry_key e
      then Some (merged_doc c e (case map_of m k of None \<Rightarrow> new_doc e | Some d \<Rightarrow> d))
      else map_of m k)"
  by (simp add: folded_entry_def Let_def update_conv')

lemma distinct_fold_all: "distinct (map fst m) \<Longrightarrow> distinct (map fst (fold_all es m))"
  by (induction es arbitrary: m) (simp_all add: fold_all_def distinct_folded_entry)

lemma doc_of_snoc:
  "cs \<noteq> [] \<Longrightarrow> doc_of (cs @ [ce]) = merged_doc (fst ce) (snd ce) (doc_of cs)"
  by (cases cs) (simp_all add: doc_of_def)

lemma doc_of_single: "doc_of [ce] = merged_doc (fst ce) (snd ce) (new_doc (snd ce))"
  by (simp add: doc_of_def)

lemma map_of_fold_all:
  "map_of (fold_all es []) k =
     (if contributors es k = [] then None else Some (doc_of (contributors es k)))"
proof (induction es rule: rev_induct)
  case Nil
  then show ?case by (simp add: fold_all_def contributors_def)
next
  case (snoc ce es)
  have step: "fold_all (es @ [ce]) [] = folded_entry (fst ce) (snd ce) (fold_all es [])"
    by (simp add: fold_all_def)
  show ?case
  proof (cases "k = entry_key (snd ce)")
    case False
    then have "contributors (es @ [ce]) k = contributors es k"
      by (auto simp: contributors_def)
    with False snoc show ?thesis
      by (simp add: step map_of_folded_entry)
  next
    case True
    then have c: "contributors (es @ [ce]) k = contributors es k @ [ce]"
      by (simp add: contributors_def)
    show ?thesis
    proof (cases "contributors es k = []")
      case True
      with \<open>k = entry_key (snd ce)\<close> snoc c show ?thesis
        by (simp add: step map_of_folded_entry doc_of_single)
    next
      case False
      with \<open>k = entry_key (snd ce)\<close> snoc c show ?thesis
        by (simp add: step map_of_folded_entry doc_of_snoc)
    qed
  qed
qed

lemma keys_fold_all:
  "set (map fst (fold_all es [])) = (\<lambda>ce. entry_key (snd ce)) ` set es"
proof -
  have "set (map fst (fold_all es [])) = dom (map_of (fold_all es []))"
    by (simp add: dom_map_of_conv_image_fst)
  also have "\<dots> = {k. contributors es k \<noteq> []}"
    by (auto simp: map_of_fold_all dom_def)
  also have "\<dots> = (\<lambda>ce. entry_key (snd ce)) ` set es"
    by (auto simp: contributors_def filter_empty_conv)
  finally show ?thesis .
qed

lemma set_foldl_set_add: "set (foldl (\<lambda>s c. set_add c s) s xs) = set s \<union> set xs"
  by (induction xs arbitrary: s) (auto simp: set_add_def)

lemma merged_doc_fixed [simp]:
  "acc_key (merged_doc c e d) = acc_key d"
  "acc_documentNumber (merged_doc c e d) = acc_documentNumber d"
  "acc_apiName (merged_doc c e d) = acc_apiName d"
  by (simp_all add: merged_doc_def)

lemma merged_doc_sets:
  "set (acc_categories (merged_doc c e d)) = set (acc_categories d) \<union> (if c \<noteq> [] then {c} else {})"
  "set (acc_contexts (merged_doc c e d)) = set (acc_contexts d) \<union> set (context_values e)"
  "set (acc_lifecycle (merged_doc c e d)) = set (acc_lifecycle d) \<union> set (lifecycle_values e)"
  by (simp_all add: merged_doc_def set_foldl_set_add) (auto simp: set_add_def)

lemma merged_doc_description:
  "acc_description (merged_doc c e d) = first_wins (acc_description d) (entry_api_description e)"
  by (simp add: merged_doc_def)

lemma or_else_nonempty: "truthy v \<Longrightarrow> or_else v d \<noteq> []"
  by (auto simp: truthy_def or_else_def split: option.splits)

lemma or_else_not_truthy: "\<not> truthy v \<Longrightarrow> or_else v d = d"
  by (auto simp: truthy_def or_else_def split: option.splits)

lemma merge_fold_fixed:
  "acc_key (foldl (\<lambda>d ce. merged_doc (fst ce) (snd ce) d) d cs) = acc_key d \<and>
   acc_documentNumber (foldl (\<lambda>d ce. merged_doc (fst ce) (snd ce) d) d cs) = acc_documentNumber d \<and>
   acc_apiName (foldl (\<lambda>d ce. merged_doc (fst ce) (snd ce) d) d cs) = acc_apiName d"
  by (induction cs arbitrary: d) simp_all

lemma merge_fold_categories:
  "set (acc_categories (foldl (\<lambda>d ce. merged_doc (fst ce) (snd ce) d) d cs)) =
     set (acc_categories d) \<union> {c \<in> fst ` set cs. c \<noteq> []}"
  by (induction cs arbitrary: d) (auto simp: merged_doc_sets)

lemma merge_fold_contexts:
  "set (acc_contexts (foldl (\<lambda>d ce. merged_doc (fst ce) (snd ce) d) d cs)) =
     set (acc_contexts d) \<union> (\<Union>ce \<in> set cs. set (context_values (snd ce)))"
  by (induction cs arbitrary: d) (auto simp: merged_doc_sets)

lemma merge_fold_lifecycle:
  "set (acc_lifecycle (foldl (\<lambda>d ce. merged_doc (fst ce) (snd ce) d) d cs)) =
     set (acc_lifecycle d) \<union> (\<Union>ce \<in> set cs. set (lifecycle_values (snd ce)))"
  by (induction cs arbitrary: d) (auto simp: merged_doc_sets)

lemma merge_fold_description:
  "acc_description (foldl (\<lambda>d ce. merged_doc (fst ce) (snd ce) d) d cs) =
     (if acc_description d \<noteq> [] then acc_description d else first_description (map snd cs))"
proof (induction cs arbitrary: d)
  case Nil
  then show ?case by simp
next
  case (Cons ce cs)
  show ?case
    by (simp add: Cons.IH merged_doc_description first_wins_def or_else_nonempty)
qed

lemma entry_documentNumber_nonempty: "entry_documentNumber e \<noteq> []"
  by (simp add: entry_documentNumber_def or_else_def split: option.splits)

lemma entry_key_documentNumber: "entry_key e = entry_documentNumber e"
  by (simp add: entry_key_def Let_def entry_documentNumber_nonempty)

lemma or_else_cases: "or_else v d = (case v of None \<Rightarrow> d | Some s \<Rightarrow> if s = [] then d else s)"
  by (simp add: or_else_def truthy_def split: option.splits)

lemma entry_api_name_spec:
  "entry_api_name (Some e) = (if spec_api_name e = [] then None else Some (spec_api_name e)) \<or>
   entry_api_name (Some e) = Some [] \<and> spec_api_name e = []"
  by (simp add: entry_api_name_def spec_api_name_def split: option.splits)

lemma first_option_name_spec:
  "first_option_name (Some e) =
     (if spec_first_option_name e = [] then None else Some (spec_first_option_name e)) \<or>
   first_option_name (Some e) = Some [] \<and> spec_first_option_name e = []"
  by (simp add: first_option_name_def spec_first_option_name_def
      split: option.splits options_value.splits list.splits)

lemma entry_key_spec: "entry_key entry = spec_key entry"
proof (cases entry)
  case None
  then show ?thesis
    by (simp add: entry_key_documentNumber entry_documentNumber_def spec_key_def
        entry_api_name_def first_option_name_def or_else_cases)
next
  case (Some e)
  have dn: "or_else (document_number e) d = (if spec_document_number e = [] then d else spec_document_number e)" for d
    by (simp add: or_else_cases spec_document_number_def split: option.splits)
  have an: "or_else (entry_api_name (Some e)) d = (if spec_api_name e = [] then d else spec_api_name e)" for d
    using entry_api_name_spec [of e] by (auto simp: or_else_cases)
  have fo: "or_else (first_option_name (Some e)) d =
      (if spec_first_option_name e = [] then d else spec_first_option_name e)" for d
    using first_option_name_spec [of e] by (auto simp: or_else_cases)
  show ?thesis
    by (simp add: Some entry_key_documentNumber entry_documentNumber_def spec_key_def dn an fo)
qed

lemma doc_of_fixed:
  "doc_of ((c, e) # cs) =  d \<Longrightarrow>
     acc_key d = entry_key e \<and> acc_documentNumber d = entry_key e \<and> acc_apiName d = entry_apiName e"
  using merge_fold_fixed [of "new_doc e" "(c, e) # cs"]
  by (auto simp: doc_of_def new_doc_def entry_key_documentNumber)

lemma doc_of_description:
  "acc_description (doc_of (ce # cs)) = first_description (map snd (ce # cs))"
  using merge_fold_description [of "new_doc (snd ce)" "ce # cs"]
  by (auto simp: doc_of_def new_doc_def or_else_not_truthy or_else_nonempty)

lemma first_description_eq:
  "first_description es = first_non_empty (map entry_api_description es)"
  by (induction es) simp_all

lemma doc_of_sets:
  "set (acc_categories (doc_of (ce # cs))) = {c \<in> fst ` set (ce # cs). c \<noteq> []}"
  "set (acc_contexts (doc_of (ce # cs))) = (\<Union>x \<in> set (ce # cs). set (context_values (snd x)))"
  "set (acc_lifecycle (doc_of (ce # cs))) = (\<Union>x \<in> set (ce # cs). set (lifecycle_values (snd x)))"
  using merge_fold_categories [of "new_doc (snd ce)" "ce # cs"]
        merge_fold_contexts [of "new_doc (snd ce)" "ce # cs"]
        merge_fold_lifecycle [of "new_doc (snd ce)" "ce # cs"]
  by (simp_all add: doc_of_def new_doc_def)

lemma contributors_set: "set (contributors es k) = {x \<in> set es. entry_key (snd x) = k}"
  by (auto simp: contributors_def)







subsection \<open>The documents returned\<close>

lemma make_document_fields:
  "doc_id (make_document P slug k d) = slug"
  "key (make_document P slug k d) = k"
  "documentNumber (make_document P slug k d) = str_or (acc_documentNumber d) k"
  "apiName (make_document P slug k d) = str_or (acc_apiName d) (str_or (acc_documentNumber d) k)"
  "description (make_document P slug k d) = acc_description d"
  "set (categories (make_document P slug k d)) = set (acc_categories d)"
  "set (contexts (make_document P slug k d)) = set (acc_contexts d)"
  "set (lifecycle (make_document P slug k d)) = set (acc_lifecycle d)"
  "versions (make_document P slug k d) = sorted_versions P d"
  by (simp_all add: make_document_def Let_def set_sort_by)


lemma build_documents_mem:
  "d \<in> set (build_documents P m used) \<Longrightarrow>
     \<exists>k a used'. (k, a) \<in> set m \<and> d = make_document P (unique_slug used' (createSlug P k)) k a"
proof (induction m arbitrary: used)
  case Nil
  then show ?case by simp
next
  case (Cons ka m)
  obtain k a where ka: "ka = (k, a)" by (cases ka)
  from Cons.prems have
    "d = make_document P (unique_slug used (createSlug P k)) k a \<or>
     d \<in> set (build_documents P m (used @ [unique_slug used (createSlug P k)]))"
    by (simp add: ka Let_def)
  then show ?case
  proof
    assume "d = make_document P (unique_slug used (createSlug P k)) k a"
    then show ?thesis unfolding ka by (intro exI [of _ k] exI [of _ a] exI [of _ used]) simp
  next
    assume "d \<in> set (build_documents P m (used @ [unique_slug used (createSlug P k)]))"
    from Cons.IH [OF this] show ?thesis by auto
  qed
qed

lemma normalise_all_arrays:
  "all_arrays p \<Longrightarrow> all_iterable p \<Longrightarrow>
     normaliseResources P p =
       Inr (sort_by (document_cmp P) (build_documents P (fold_all (flat_entries p) []) []))"
  by (simp add: normaliseResources_def fold_categories_payload)

lemma normalise_error:
  "\<not> (all_arrays p \<and> all_iterable p) \<Longrightarrow> normaliseResources P p = Inl TypeError"
  by (simp add: normaliseResources_def fold_categories_payload)

lemma normalised_doc:
  assumes "d \<in> set (sort_by (document_cmp P) (build_documents P (fold_all es []) []))"
  shows "\<exists>slug ce cs. contributors es (key d) = ce # cs \<and>
           d = make_document P slug (key d) (doc_of (ce # cs))"
proof -
  from assms have "d \<in> set (build_documents P (fold_all es []) [])"
    by (simp add: set_sort_by)
  then obtain k a used' where ka: "(k, a) \<in> set (fold_all es [])"
      and d: "d = make_document P (unique_slug used' (createSlug P k)) k a"
    using build_documents_mem by blast
  have "distinct (map fst (fold_all es []))"
    by (rule distinct_fold_all) simp
  with ka have "map_of (fold_all es []) k = Some a"
    by simp
  then have c: "contributors es k \<noteq> []" and a: "a = doc_of (contributors es k)"
    by (auto simp: map_of_fold_all split: if_splits)
  from c obtain ce cs where cs: "contributors es k = ce # cs"
    by (cases "contributors es k") auto
  from d have "key d = k" by (simp add: make_document_fields)
  with d a cs show ?thesis by auto
qed

lemma keys_sorted_documents:
  "set (map key (sort_by c (build_documents P (fold_all es []) []))) =
     (\<lambda>ce. entry_key (snd ce)) ` set es"
proof -
  have "set (map key (sort_by c (build_documents P (fold_all es []) []))) =
      set (map key (build_documents P (fold_all es []) []))"
    by (simp add: set_sort_by)
  also have "\<dots> = set (map fst (fold_all es []))"
    by (simp only: keys_build_documents)
  also have "\<dots> = (\<lambda>ce. entry_key (snd ce)) ` set es"
    by (rule keys_fold_all)
  finally show ?thesis .
qed

subsection \<open>The order of the keys and the ids\<close>

lemma keys_folded_entry:
  "map fst (folded_entry c e m) =
     (if entry_key e \<in> set (map fst m) then map fst m else map fst m @ [entry_key e])"
  by (simp add: folded_entry_def Let_def update_keys)

lemma key_order_fold_all:
  "map fst (fold_all es []) = rev (remdups (rev (map (\<lambda>ce. entry_key (snd ce)) es)))"
proof (induction es rule: rev_induct)
  case Nil
  then show ?case by (simp add: fold_all_def)
next
  case (snoc ce es)
  have step: "fold_all (es @ [ce]) [] = folded_entry (fst ce) (snd ce) (fold_all es [])"
    by (simp add: fold_all_def)
  have keys: "set (map fst (fold_all es [])) = (\<lambda>ce. entry_key (snd ce)) ` set es"
    by (rule keys_fold_all)
  show ?case
    unfolding step keys_folded_entry keys
    using snoc.IH by auto
qed

lemma build_documents_length: "length (build_documents P m used) = length m"
  by (induction m arbitrary: used) (auto simp: Let_def)

lemma build_documents_nth:
  "i < length m \<Longrightarrow>
     doc_id (build_documents P m used ! i) =
       unique_slug (used @ map doc_id (take i (build_documents P m used))) (createSlug P (fst (m ! i)))"
proof (induction m arbitrary: used i)
  case Nil
  then show ?case by simp
next
  case (Cons ka m)
  obtain k a where ka: "ka = (k, a)" by (cases ka)
  let ?slug = "unique_slug used (createSlug P k)"
  let ?d0 = "make_document P ?slug k a"
  have b: "build_documents P (ka # m) used = ?d0 # build_documents P m (used @ [?slug])"
    by (simp add: ka Let_def)
  show ?case
  proof (cases i)
    case 0
    then show ?thesis unfolding b by (simp add: ka make_document_fields)
  next
    case (Suc j)
    with Cons.prems have j: "j < length m" by simp
    from Cons.IH [OF j, of "used @ [?slug]"] show ?thesis
      unfolding b by (simp add: Suc make_document_fields)
  qed
qed

lemma take_keys:
  assumes "distinct (map f xs)" and "i \<le> length xs"
  shows "{x \<in> set xs. f x \<in> set (take i (map f xs))} = set (take i xs)"
proof
  show "set (take i xs) \<subseteq> {x \<in> set xs. f x \<in> set (take i (map f xs))}"
    by (auto simp: take_map dest: in_set_takeD)
next
  have inj: "inj_on f (set xs)"
    using assms(1) by (simp add: distinct_map)
  show "{x \<in> set xs. f x \<in> set (take i (map f xs))} \<subseteq> set (take i xs)"
  proof
    fix x assume "x \<in> {x \<in> set xs. f x \<in> set (take i (map f xs))}"
    then have x: "x \<in> set xs" and "f x \<in> f ` set (take i xs)"
      by (auto simp: take_map)
    then obtain y where y: "y \<in> set (take i xs)" "f y = f x"
      by auto
    then have "y \<in> set xs" by (auto dest: in_set_takeD)
    with inj x y(2) have "y = x" by (auto dest: inj_onD)
    with y(1) show "x \<in> set (take i xs)" by simp
  qed
qed

lemma build_documents_candidates:
  assumes "i < length m"
  shows "\<exists>n. doc_id (build_documents P m [] ! i) =
           slug_candidate (createSlug P (fst (m ! i))) (''-'' @ show_nat (i + 1)) n \<and>
         (\<forall>j<n. slug_candidate (createSlug P (fst (m ! i))) (''-'' @ show_nat (i + 1)) j
                 \<in> doc_id ` set (take i (build_documents P m []))) \<and>
         doc_id (build_documents P m [] ! i) \<notin> doc_id ` set (take i (build_documents P m []))"
proof -
  let ?b = "build_documents P m []"
  let ?used = "map doc_id (take i ?b)"
  let ?base = "createSlug P (fst (m ! i))"
  have len: "length ?used = i"
    using assms by (simp add: build_documents_length)
  have id: "doc_id (?b ! i) = unique_slug ?used ?base"
    using build_documents_nth [OF assms, of P "[]"] by simp
  from unique_slug_shape [of ?used ?base] obtain n where
    n: "unique_slug ?used ?base = ?base @ concat (replicate n (''-'' @ show_nat (length ?used + 1)))"
    and below: "\<forall>j<n. ?base @ concat (replicate j (''-'' @ show_nat (length ?used + 1))) \<in> set ?used"
    by blast
  have fresh: "unique_slug ?used ?base \<notin> set ?used"
    by (rule unique_slug_fresh)
  show ?thesis
  proof (intro exI [of _ n] conjI)
    show "doc_id (?b ! i) = slug_candidate ?base (''-'' @ show_nat (i + 1)) n"
      using id n unfolding len by (simp add: slug_candidate_def)
    show "\<forall>j<n. slug_candidate ?base (''-'' @ show_nat (i + 1)) j \<in> doc_id ` set (take i ?b)"
      using below unfolding len by (simp add: slug_candidate_def)
    show "doc_id (?b ! i) \<notin> doc_id ` set (take i ?b)"
      using fresh id by simp
  qed
qed

subsection \<open>The versions of one document\<close>

lemma acc_versions_merged_doc: "acc_versions (merged_doc c e d) = merged_versions e (acc_versions d)"
  by (simp add: merged_doc_def)

lemma acc_versions_fold:
  "acc_versions (foldl (\<lambda>d ce. merged_doc (fst ce) (snd ce) d) d cs) =
     foldl (\<lambda>vs e. merged_versions e vs) (acc_versions d) (map snd cs)"
  by (induction cs arbitrary: d) (simp_all add: acc_versions_merged_doc)

lemma acc_versions_doc_of:
  "acc_versions (doc_of (ce # cs)) = foldl (\<lambda>vs e. merged_versions e vs) [] (map snd (ce # cs))"
  using acc_versions_fold [of "new_doc (snd ce)" "ce # cs"]
  by (simp add: doc_of_def new_doc_def)

lemma version_key_label: "or_else (Option.bind entry version_info) ''Unversioned'' = version_label entry"
  by (cases entry) (simp_all add: version_label_def or_else_cases given_or_def)

lemma map_of_merged_versions:
  "map_of (merged_versions e vs) l =
     (if l = version_label e
      then Some (merged_version e (case map_of vs l of None \<Rightarrow> new_version e | Some v \<Rightarrow> v))
      else map_of vs l)"
  by (simp add: merged_versions_def Let_def update_conv' version_key_label)

lemma distinct_merged_versions:
  "distinct (map fst vs) \<Longrightarrow> distinct (map fst (merged_versions e vs))"
  by (simp add: merged_versions_def Let_def distinct_update)

lemma distinct_version_fold:
  "distinct (map fst vs) \<Longrightarrow> distinct (map fst (foldl (\<lambda>vs e. merged_versions e vs) vs es))"
  by (induction es arbitrary: vs) (simp_all add: distinct_merged_versions)

lemma version_of_snoc: "es \<noteq> [] \<Longrightarrow> version_of (es @ [e]) = merged_version e (version_of es)"
  by (cases es) (simp_all add: version_of_def)

lemma version_of_single: "version_of [e] = merged_version e (new_version e)"
  by (simp add: version_of_def)

lemma map_of_version_fold:
  "map_of (foldl (\<lambda>vs e. merged_versions e vs) [] es) l =
     (if filter (\<lambda>e. version_label e = l) es = [] then None
      else Some (version_of (filter (\<lambda>e. version_label e = l) es)))"
proof (induction es rule: rev_induct)
  case Nil
  then show ?case by simp
next
  case (snoc e es)
  show ?case
  proof (cases "l = version_label e")
    case False
    with snoc show ?thesis
      by (simp add: map_of_merged_versions)
  next
    case True
    show ?thesis
    proof (cases "filter (\<lambda>e. version_label e = l) es = []")
      case True
      with \<open>l = version_label e\<close> snoc show ?thesis
        by (simp add: map_of_merged_versions version_of_single)
    next
      case False
      with \<open>l = version_label e\<close> snoc show ?thesis
        by (simp add: map_of_merged_versions version_of_snoc)
    qed
  qed
qed

lemma first_wins_fold:
  "foldl first_wins x vs = (if x \<noteq> [] then x else first_non_empty vs)"
  by (induction vs arbitrary: x) (simp_all add: first_wins_def or_else_nonempty)

lemma first_wins_start:
  "foldl first_wins (or_else v []) (v # vs) = first_non_empty (v # vs)"
  by (cases "truthy v") (simp_all add: first_wins_fold first_wins_def or_else_nonempty or_else_not_truthy)

lemma merged_version_fields:
  "version (merged_version e v) = version v"
  "release (merged_version e v) = first_wins (release v) (Option.bind e release_info)"
  "v_lifecycle (merged_version e v) = first_wins (v_lifecycle v) (Option.bind e lifecycle_status)"
  "published (merged_version e v) = first_wins (published v) (Option.bind e published_date)"
  "v_notes (merged_version e v) = first_wins (v_notes v) (Option.bind e entry_notes)"
  "v_options (merged_version e v) = v_options v @ map make_option (option_items e)"
  by (simp_all add: merged_version_def)

lemma version_fold_fields:
  "version (foldl (\<lambda>v e. merged_version e v) v es) = version v"
  "release (foldl (\<lambda>v e. merged_version e v) v es) =
     foldl first_wins (release v) (map (\<lambda>e. Option.bind e release_info) es)"
  "v_lifecycle (foldl (\<lambda>v e. merged_version e v) v es) =
     foldl first_wins (v_lifecycle v) (map (\<lambda>e. Option.bind e lifecycle_status) es)"
  "published (foldl (\<lambda>v e. merged_version e v) v es) =
     foldl first_wins (published v) (map (\<lambda>e. Option.bind e published_date) es)"
  "v_notes (foldl (\<lambda>v e. merged_version e v) v es) =
     foldl first_wins (v_notes v) (map (\<lambda>e. Option.bind e entry_notes) es)"
  "v_options (foldl (\<lambda>v e. merged_version e v) v es) =
     v_options v @ concat (map (\<lambda>e. map make_option (option_items e)) es)"
  by (induction es arbitrary: v) (simp_all add: merged_version_fields)

lemma make_option_default: "make_option opt = default_option opt"
  by (cases opt) (simp_all add: make_option_def default_option_def or_else_cases given_or_def)

lemma version_of_fields:
  "version (version_of (e # es)) = version_label e"
  "release (version_of (e # es)) = first_non_empty (map (\<lambda>e. Option.bind e release_info) (e # es))"
  "v_lifecycle (version_of (e # es)) =
     first_non_empty (map (\<lambda>e. Option.bind e lifecycle_status) (e # es))"
  "published (version_of (e # es)) =
     first_non_empty (map (\<lambda>e. Option.bind e published_date) (e # es))"
  "v_notes (version_of (e # es)) = first_non_empty (map (\<lambda>e. Option.bind e entry_notes) (e # es))"
  "v_options (version_of (e # es)) = map default_option (concat (map option_items (e # es)))"
proof -
  have v: "version_of (e # es) = foldl (\<lambda>v e. merged_version e v) (new_version e) (e # es)"
    by (simp add: version_of_def)
  show "version (version_of (e # es)) = version_label e"
    unfolding v version_fold_fields by (simp add: new_version_def version_key_label)
  show "release (version_of (e # es)) = first_non_empty (map (\<lambda>e. Option.bind e release_info) (e # es))"
    unfolding v version_fold_fields using first_wins_start [of "Option.bind e release_info"]
    by (simp add: new_version_def)
  show "v_lifecycle (version_of (e # es)) =
     first_non_empty (map (\<lambda>e. Option.bind e lifecycle_status) (e # es))"
    unfolding v version_fold_fields using first_wins_start [of "Option.bind e lifecycle_status"]
    by (simp add: new_version_def)
  show "published (version_of (e # es)) =
     first_non_empty (map (\<lambda>e. Option.bind e published_date) (e # es))"
    unfolding v version_fold_fields using first_wins_start [of "Option.bind e published_date"]
    by (simp add: new_version_def)
  show "v_notes (version_of (e # es)) = first_non_empty (map (\<lambda>e. Option.bind e entry_notes) (e # es))"
    unfolding v version_fold_fields using first_wins_start [of "Option.bind e entry_notes"]
    by (simp add: new_version_def)
  show "v_options (version_of (e # es)) = map default_option (concat (map option_items (e # es)))"
    unfolding v version_fold_fields
    by (simp add: new_version_def map_concat comp_def make_option_default [abs_def])
qed

lemma version_fold_mem:
  assumes "(l, v0) \<in> set (foldl (\<lambda>vs e. merged_versions e vs) [] es)"
  shows "filter (\<lambda>e. version_label e = l) es \<noteq> [] \<and>
     v0 = version_of (filter (\<lambda>e. version_label e = l) es) \<and> version v0 = l"
proof -
  let ?vs = "foldl (\<lambda>vs e. merged_versions e vs) [] es"
  let ?f = "filter (\<lambda>e. version_label e = l) es"
  have "distinct (map fst ?vs)"
    by (rule distinct_version_fold) simp
  with assms have "map_of ?vs l = Some v0"
    by simp
  moreover have "map_of ?vs l = (if ?f = [] then None else Some (version_of ?f))"
    by (rule map_of_version_fold)
  ultimately have ne: "?f \<noteq> []" and v0eq: "v0 = version_of ?f"
    by (auto split: if_splits)
  from ne obtain e es' where f: "?f = e # es'"
    by (cases ?f) auto
  then have "e \<in> set ?f"
    by simp
  then have "version_label e = l"
    by simp
  then have "version v0 = l"
    unfolding v0eq f by (simp add: version_of_fields)
  with ne v0eq show ?thesis
    by simp
qed

lemma version_fold_label:
  assumes "e \<in> set es"
  shows "(version_label e, version_of (filter (\<lambda>x. version_label x = version_label e) es))
     \<in> set (foldl (\<lambda>vs e. merged_versions e vs) [] es)"
proof -
  let ?vs = "foldl (\<lambda>vs e. merged_versions e vs) [] es"
  let ?f = "filter (\<lambda>x. version_label x = version_label e) es"
  from assms have "?f \<noteq> []"
    by (auto simp: filter_empty_conv)
  moreover have "map_of ?vs (version_label e) = (if ?f = [] then None else Some (version_of ?f))"
    by (rule map_of_version_fold)
  ultimately have "map_of ?vs (version_label e) = Some (version_of ?f)"
    by simp
  then show ?thesis
    by (rule map_of_SomeD)
qed

lemma sorted_versions_mem:
  assumes "acc_versions doc = foldl (\<lambda>vs e. merged_versions e vs) [] es"
    and "v \<in> set (sorted_versions P doc)"
  shows "filter (\<lambda>e. version_label e = version v) es \<noteq> [] \<and>
     v = (version_of (filter (\<lambda>e. version_label e = version v) es))
           \<lparr>v_options := sort_by (option_cmp P)
              (v_options (version_of (filter (\<lambda>e. version_label e = version v) es)))\<rparr>"
proof -
  let ?vs = "foldl (\<lambda>vs e. merged_versions e vs) [] es"
  from assms(2) obtain v0 where v0: "v0 \<in> snd ` set ?vs"
      and v: "v = v0\<lparr>v_options := sort_by (option_cmp P) (v_options v0)\<rparr>"
    unfolding sorted_versions_def assms(1) by (auto simp: set_sort_by)
  from v0 obtain l where l: "(l, v0) \<in> set ?vs"
    by auto
  from version_fold_mem [OF l]
  have ne: "filter (\<lambda>e. version_label e = l) es \<noteq> []"
    and v0eq: "v0 = version_of (filter (\<lambda>e. version_label e = l) es)"
    and vl: "version v0 = l"
    by blast+
  have "version v = version v0"
    by (subst v) simp
  with vl have "version v = l"
    by simp
  with ne v0eq v show ?thesis
    by simp
qed

lemma sorted_versions_labels:
  assumes "acc_versions doc = foldl (\<lambda>vs e. merged_versions e vs) [] es"
  shows "version ` set (sorted_versions P doc) = version_label ` set es"
proof
  show "version ` set (sorted_versions P doc) \<subseteq> version_label ` set es"
  proof
    fix l assume "l \<in> version ` set (sorted_versions P doc)"
    then obtain v where v: "v \<in> set (sorted_versions P doc)" and l: "l = version v"
      by auto
    from sorted_versions_mem [OF assms v]
    have "filter (\<lambda>e. version_label e = version v) es \<noteq> []"
      by simp
    then obtain e where "e \<in> set es" "version_label e = version v"
      by (auto simp: filter_empty_conv)
    then have "version v \<in> version_label ` set es"
      by (metis imageI)
    with l show "l \<in> version_label ` set es"
      by simp
  qed
next
  let ?vs = "foldl (\<lambda>vs e. merged_versions e vs) [] es"
  show "version_label ` set es \<subseteq> version ` set (sorted_versions P doc)"
  proof
    fix l assume "l \<in> version_label ` set es"
    then obtain e where e: "e \<in> set es" "version_label e = l"
      by auto
    let ?f = "filter (\<lambda>x. version_label x = l) es"
    from version_fold_label [OF e(1)] e(2) have m: "(l, version_of ?f) \<in> set ?vs"
      by simp
    from version_fold_mem [OF m] have lv: "version (version_of ?f) = l"
      by blast
    from m have "version_of ?f \<in> snd ` set ?vs"
      by force
    then have mem: "(version_of ?f)\<lparr>v_options := sort_by (option_cmp P) (v_options (version_of ?f))\<rparr>
        \<in> set (sorted_versions P doc)"
      unfolding sorted_versions_def assms by (simp add: set_sort_by)
    from lv have "version ((version_of ?f)\<lparr>v_options := sort_by (option_cmp P) (v_options (version_of ?f))\<rparr>) = l"
      by simp
    with mem show "l \<in> version ` set (sorted_versions P doc)"
      by (metis imageI)
  qed
qed

lemma sorted_versions_fields:
  assumes "acc_versions doc = foldl (\<lambda>vs e. merged_versions e vs) [] all"
    and "v \<in> set (sorted_versions P doc)"
    and "es = filter (\<lambda>e. version_label e = version v) all"
  shows "es \<noteq> [] \<and>
    release v = first_non_empty (map (\<lambda>e. Option.bind e release_info) es) \<and>
    v_lifecycle v = first_non_empty (map (\<lambda>e. Option.bind e lifecycle_status) es) \<and>
    published v = first_non_empty (map (\<lambda>e. Option.bind e published_date) es) \<and>
    v_notes v = first_non_empty (map (\<lambda>e. Option.bind e entry_notes) es) \<and>
    v_options v = sort_by (option_cmp P) (map default_option (concat (map option_items es)))"
proof -
  from sorted_versions_mem [OF assms(1,2)] assms(3)
  have ne: "es \<noteq> []"
    and v: "v = (version_of es)\<lparr>v_options := sort_by (option_cmp P) (v_options (version_of es))\<rparr>"
    by simp_all
  from ne obtain e es' where es: "es = e # es'"
    by (cases es) auto
  have "release v = first_non_empty (map (\<lambda>e. Option.bind e release_info) es)"
    by (subst v) (simp add: es version_of_fields)
  moreover have "v_lifecycle v = first_non_empty (map (\<lambda>e. Option.bind e lifecycle_status) es)"
    by (subst v) (simp add: es version_of_fields)
  moreover have "published v = first_non_empty (map (\<lambda>e. Option.bind e published_date) es)"
    by (subst v) (simp add: es version_of_fields)
  moreover have "v_notes v = first_non_empty (map (\<lambda>e. Option.bind e entry_notes) es)"
    by (subst v) (simp add: es version_of_fields)
  moreover have "v_options v = sort_by (option_cmp P) (map default_option (concat (map option_items es)))"
    by (subst v) (simp add: es version_of_fields)
  ultimately show ?thesis
    using ne by simp
qed

lemma context_values_absent: "absent (Option.bind e entry_context) \<Longrightarrow> context_values e = []"
  by (auto simp: absent_def context_values_def)

lemma lifecycle_values_absent: "absent (Option.bind e lifecycle_status) \<Longrightarrow> lifecycle_values e = []"
  by (auto simp: absent_def lifecycle_values_def truthy_def)

lemma scalar_not_arrays: "scalar_group p \<Longrightarrow> \<not> all_arrays p"
  by (auto simp: scalar_group_def all_arrays_def list_ex_iff list_all_iff is_scalar_def is_array_def
      split: group_value.splits)

lemma document_for_entry:
  assumes "ce \<in> set es"
  shows "\<exists>d \<in> set (sort_by (document_cmp P) (build_documents P (fold_all es []) [])).
     key d = entry_key (snd ce) \<and> documentNumber d = entry_key (snd ce)"
proof -
  let ?docs = "sort_by (document_cmp P) (build_documents P (fold_all es []) [])"
  have "entry_key (snd ce) \<in> (\<lambda>ce. entry_key (snd ce)) ` set es"
    using assms by (rule imageI)
  then have "entry_key (snd ce) \<in> set (map key ?docs)"
    by (simp only: keys_sorted_documents)
  then obtain d where d: "d \<in> set ?docs" "key d = entry_key (snd ce)"
    by auto
  from d(1) obtain slug c cs where cs: "contributors es (key d) = c # cs"
      and dm: "d = make_document P slug (key d) (doc_of (c # cs))"
    using normalised_doc by blast
  have "c \<in> set (contributors es (key d))" by (simp add: cs)
  then have c: "entry_key (snd c) = key d" by (simp add: contributors_set)
  have "acc_documentNumber (doc_of (c # cs)) = key d"
    using doc_of_fixed [of "fst c" "snd c" cs] c by simp
  then have "documentNumber d = str_or (key d) (key d)"
    by (subst dm) (simp add: make_document_fields)
  then have "documentNumber d = key d" by (simp add: str_or_def)
  with d show ?thesis by auto
qed

lemma normalised_fields:
  assumes "d \<in> set (sort_by (document_cmp P) (build_documents P (fold_all es []) []))"
  shows "description d =
      first_non_empty
        (map (\<lambda>ce. Option.bind (Option.bind (snd ce) api_description) api_desc.api_description)
          (contributors es (key d)))"
    and "set (categories d) = {c \<in> fst ` set (contributors es (key d)). c \<noteq> []}"
    and "set (contexts d) = (\<Union>x \<in> set (contributors es (key d)). set (context_values (snd x)))"
    and "set (lifecycle d) = (\<Union>x \<in> set (contributors es (key d)). set (lifecycle_values (snd x)))"
    and "\<exists>doc. versions d = sorted_versions P doc \<and>
           acc_versions doc =
             foldl (\<lambda>vs e. merged_versions e vs) [] (map snd (contributors es (key d)))"
proof -
  from assms obtain slug ce cs where cs: "contributors es (key d) = ce # cs"
    and dm: "d = make_document P slug (key d) (doc_of (ce # cs))"
    using normalised_doc by blast
  have "description d = acc_description (doc_of (ce # cs))"
    by (subst dm) (simp add: make_document_fields)
  also have "\<dots> = first_non_empty (map entry_api_description (map snd (ce # cs)))"
    by (simp only: doc_of_description first_description_eq)
  also have "\<dots> = first_non_empty
        (map (\<lambda>ce. Option.bind (Option.bind (snd ce) api_description) api_desc.api_description)
          (ce # cs))"
    by (simp add: entry_api_description_def comp_def)
  finally show "description d =
      first_non_empty
        (map (\<lambda>ce. Option.bind (Option.bind (snd ce) api_description) api_desc.api_description)
          (contributors es (key d)))"
    by (simp only: cs)
  have "set (categories d) = set (acc_categories (doc_of (ce # cs)))"
    by (subst dm) (simp add: make_document_fields)
  then show "set (categories d) = {c \<in> fst ` set (contributors es (key d)). c \<noteq> []}"
    by (simp only: doc_of_sets cs)
  have "set (contexts d) = set (acc_contexts (doc_of (ce # cs)))"
    by (subst dm) (simp add: make_document_fields)
  then show "set (contexts d) = (\<Union>x \<in> set (contributors es (key d)). set (context_values (snd x)))"
    by (simp only: doc_of_sets cs)
  have "set (lifecycle d) = set (acc_lifecycle (doc_of (ce # cs)))"
    by (subst dm) (simp add: make_document_fields)
  then show "set (lifecycle d) = (\<Union>x \<in> set (contributors es (key d)). set (lifecycle_values (snd x)))"
    by (simp only: doc_of_sets cs)
  have "versions d = sorted_versions P (doc_of (ce # cs))"
    by (subst dm) (simp add: make_document_fields)
  moreover have "acc_versions (doc_of (ce # cs)) =
      foldl (\<lambda>vs e. merged_versions e vs) [] (map snd (contributors es (key d)))"
    unfolding cs by (rule acc_versions_doc_of)
  ultimately show "\<exists>doc. versions d = sorted_versions P doc \<and>
           acc_versions doc =
             foldl (\<lambda>vs e. merged_versions e vs) [] (map snd (contributors es (key d)))"
    by blast
qed

subsection \<open>Version order\<close>

lemma parseDate_cleaned:
  "parseDate P v = (case date_parse P (cleaned_date v) of None \<Rightarrow> 0 | Some t \<Rightarrow> t)"
  by (simp add: parseDate_def cleaned_date_def Let_def)

lemma version_cmp_le:
  "version_cmp P a b \<le> 0 \<longleftrightarrow>
     parseDate P (published b) < parseDate P (published a) \<or>
     (parseDate P (published a) = parseDate P (published b) \<and>
      compareStrings P (version b) (version a) \<le> 0)"
  by (auto simp: version_cmp_def Let_def)

lemma total_preorder_version_cmp:
  assumes "total_preorder (localeCompare P)"
  shows "total_preorder (version_cmp P)"
proof -
  have tot: "localeCompare P x y \<le> 0 \<or> localeCompare P y x \<le> 0" for x y
    using assms unfolding total_preorder_def by blast
  have tr: "localeCompare P x y \<le> 0 \<Longrightarrow> localeCompare P y z \<le> 0 \<Longrightarrow> localeCompare P x z \<le> 0"
    for x y z
    using assms unfolding total_preorder_def by blast
  have t: "version_cmp P a b \<le> 0 \<or> version_cmp P b a \<le> 0" for a b
    using tot [of "version b" "version a"]
    by (auto simp: version_cmp_le compareStrings_def)
  have r: "version_cmp P a c \<le> 0" if "version_cmp P a b \<le> 0" "version_cmp P b c \<le> 0" for a b c
  proof -
    from that(1) have ab: "parseDate P (published b) < parseDate P (published a) \<or>
       (parseDate P (published a) = parseDate P (published b) \<and>
        localeCompare P (version b) (version a) \<le> 0)"
      by (simp add: version_cmp_le compareStrings_def)
    from that(2) have bc: "parseDate P (published c) < parseDate P (published b) \<or>
       (parseDate P (published b) = parseDate P (published c) \<and>
        localeCompare P (version c) (version b) \<le> 0)"
      by (simp add: version_cmp_le compareStrings_def)
    show ?thesis
    proof (cases "parseDate P (published c) < parseDate P (published a)")
      case True
      then show ?thesis by (simp add: version_cmp_le)
    next
      case False
      with ab bc have eq: "parseDate P (published a) = parseDate P (published b)"
          "parseDate P (published b) = parseDate P (published c)"
        and l: "localeCompare P (version b) (version a) \<le> 0"
          "localeCompare P (version c) (version b) \<le> 0"
        by auto
      from tr [OF l(2) l(1)] eq show ?thesis
        by (simp add: version_cmp_le compareStrings_def)
    qed
  qed
  from t r show ?thesis
    unfolding total_preorder_def by blast
qed

lemma sorted_versions_sorted:
  assumes "total_preorder (localeCompare P)"
  shows "sorted_wrt (\<lambda>a b. version_cmp P a b \<le> 0) (sorted_versions P a)"
proof -
  have s: "sorted_wrt (\<lambda>a b. version_cmp P a b \<le> 0)
      (sort_by (version_cmp P) (map snd (acc_versions a)))"
    using assms by (intro sorted_sort_by total_preorder_version_cmp)
  have "version_cmp P (x\<lparr>v_options := u\<rparr>) (y\<lparr>v_options := w\<rparr>) = version_cmp P x y" for x y u w
    by (simp add: version_cmp_def)
  with s show ?thesis
    by (simp add: sorted_versions_def sorted_wrt_map)
qed

subsection \<open>The loader\<close>

lemma load_from_all_fail:
  "\<forall>s \<in> set srcs. isl (try_source f p s) \<Longrightarrow> srcs \<noteq> [] \<Longrightarrow>
     load_from f p srcs le = (srcs, Inl (projl (try_source f p (last srcs))))"
proof (induction srcs arbitrary: le)
  case Nil
  then show ?case by simp
next
  case (Cons src rest)
  from Cons.prems obtain e where e: "try_source f p src = Inl e"
    by (cases "try_source f p src") auto
  show ?case
  proof (cases "rest = []")
    case True
    with e show ?thesis by simp
  next
    case False
    with Cons.IH [of "Some e"] Cons.prems e show ?thesis
      by (simp add: Let_def)
  qed
qed

lemma load_from_first_success:
  "i < length srcs \<Longrightarrow> \<forall>j<i. isl (try_source f p (srcs ! j)) \<Longrightarrow>
   try_source f p (srcs ! i) = Inr data \<Longrightarrow>
     load_from f p srcs le = (take (Suc i) srcs, Inr (data, srcs ! i))"
proof (induction srcs arbitrary: i le)
  case Nil
  then show ?case by simp
next
  case (Cons src rest)
  show ?case
  proof (cases i)
    case 0
    with Cons.prems show ?thesis by simp
  next
    case (Suc k)
    with Cons.prems have "isl (try_source f p src)" by auto
    then obtain e where e: "try_source f p src = Inl e"
      by (cases "try_source f p src") auto
    have k: "k < length rest" using Cons.prems(1) Suc by simp
    have f: "\<forall>j<k. isl (try_source f p (rest ! j))"
      using Cons.prems(2) Suc by auto
    have s: "try_source f p (rest ! k) = Inr data"
      using Cons.prems(3) Suc by simp
    from Cons.IH [OF k f s, of "Some e"] e Suc show ?thesis
      by (simp add: Let_def)
  qed
qed

lemma try_source_success:
  "try_source f p src = Inr data \<longleftrightarrow>
     (\<exists>r body. f src = Inr r \<and> ok r \<and> body_text r = Inr body \<and> p body = Inr data)"
  by (auto simp: try_source_def split: sum.splits)

lemma getApiSources_value:
  "getApiSources =
     [''./index.json'', ''https://corsproxy.io/?.%2Findex.json'', ''https://r.jina.ai/./index.json'']"
  by code_simp

subsection \<open>Rendering and routing\<close>

lemma renderIndex_fields [simp]:
  "documents (renderIndex s) = documents s"
  "filtered (renderIndex s) = filtered s"
  "documentMap (renderIndex s) = documentMap s"
  "route (renderIndex s) = route s"
  "location_hash (renderIndex s) = location_hash s"
  "pending_hashchange (renderIndex s) = pending_hashchange s"
  "status_hidden (renderIndex s) = status_hidden s"
  "status_message (renderIndex s) = status_message s"
  "status_error (renderIndex s) = status_error s"
  "detail_hidden (renderIndex s) = detail_hidden s"
  "detail_content (renderIndex s) = detail_content s"
  by (simp_all add: renderIndex_def Let_def)

lemma ceil_pages_pos: "0 < n \<Longrightarrow> 0 < ceil_pages n"
  by (simp add: ceil_pages_def pageSize_def) 

lemma renderIndex_page_one: "currentPage s = 1 \<Longrightarrow> currentPage (renderIndex s) = 1"
  using ceil_pages_pos [of "length (filtered s)"]
  by (auto simp: renderIndex_def Let_def)

lemma renderRoute_empty:
  "documents s = [] \<Longrightarrow>
     renderRoute s = renderIndex (s\<lparr>detail_hidden := (view (route s) \<noteq> DetailView)\<rparr>)"
  by (simp add: renderRoute.simps)

lemma renderRoute_index:
  "documents s \<noteq> [] \<Longrightarrow> view (route s) \<noteq> DetailView \<Longrightarrow>
     renderRoute s = renderIndex (s\<lparr>detail_hidden := True, detail_content := None\<rparr>)"
  by (simp add: renderRoute.simps)

lemma navigateToIndex_direct:
  "location_hash s \<in> set index_hashes \<Longrightarrow> documents s \<noteq> [] \<Longrightarrow>
     navigateToIndex s =
       renderIndex (s\<lparr>route := index_route, detail_hidden := True, detail_content := None\<rparr>)"
  by (simp add: navigateToIndex.simps [of s] renderRoute_index index_route_def)

lemma navigateToIndex_hash:
  "location_hash s \<notin> set index_hashes \<Longrightarrow>
     navigateToIndex s =
       s\<lparr>location_hash := ''#/'', pending_hashchange := pending_hashchange s + 1\<rparr>"
  by (simp add: navigateToIndex.simps [of s])

lemma trim_empty: "trim [] = []"
  by code_simp

lemma trim_slash: "trim ''/'' = ''/''"
  by code_simp

lemma parseHash_index: "parseHash P ''#/'' = Inr index_route"
  by (simp add: parseHash_def trim_slash)

lemma deliver_after_redirect:
  assumes "documents s \<noteq> []" and "view (route s) = DetailView"
    and "location_hash s = ''#/''" and "0 < pending_hashchange s"
  shows "\<exists>s''. deliver_hashchange P s = Inr s'' \<and> route s'' = index_route \<and>
     detail_content s'' = None \<and> location_hash s'' = ''#/'' \<and>
     pending_hashchange s'' = pending_hashchange s - 1 \<and> same_status s s''"
  using assms
  by (simp add: deliver_hashchange_def handleRouteChange_def parseHash_index Let_def
      index_route_def renderRoute_index same_status_def)

lemma renderRoute_page_one: "currentPage s = 1 \<Longrightarrow> currentPage (renderRoute s) = 1"
proof -
  assume p: "currentPage s = 1"
  have nav: "currentPage (navigateToIndex t) = 1" if "currentPage t = 1" for t
  proof (cases "location_hash t \<in> set index_hashes")
    case False
    with that show ?thesis by (simp add: navigateToIndex_hash)
  next
    case True
    show ?thesis
    proof (cases "documents t = []")
      case True
      with \<open>location_hash t \<in> set index_hashes\<close> that show ?thesis
        by (simp add: navigateToIndex.simps [of t] renderRoute_empty renderIndex_page_one)
    next
      case False
      with \<open>location_hash t \<in> set index_hashes\<close> that show ?thesis
        by (simp add: navigateToIndex_direct renderIndex_page_one)
    qed
  qed
  show ?thesis
    using p by (simp add: renderRoute.simps [of s] renderIndex_page_one nav setStatus_def
        renderDetail_def split: option.splits)
qed

lemma length_sortDocuments: "length (sortDocuments P s xs) = length xs"
  by (simp add: sortDocuments_def length_sort_by)

lemma renderRoute_filtered: "filtered (renderRoute s) = filtered s"
proof -
  have nav: "filtered (navigateToIndex t) = filtered t" for t
  proof (cases "location_hash t \<in> set index_hashes")
    case False
    then show ?thesis by (simp add: navigateToIndex_hash)
  next
    case True
    show ?thesis
    proof (cases "documents t = []")
      case True
      with \<open>location_hash t \<in> set index_hashes\<close> show ?thesis
        by (simp add: navigateToIndex.simps [of t] renderRoute_empty)
    next
      case False
      with \<open>location_hash t \<in> set index_hashes\<close> show ?thesis
        by (simp add: navigateToIndex_direct)
    qed
  qed
  show ?thesis
    by (simp add: renderRoute.simps [of s] nav setStatus_def renderDetail_def split: option.splits)
qed

lemma filtered_applyFilters:
  "set (filtered (applyFilters P s)) = {d \<in> set (documents s). matches_filters s d}"
  by (simp add: applyFilters_def Let_def renderRoute_filtered sortDocuments_def set_sort_by)

subsection \<open>The sample inputs\<close>

lemma compare_codes_total: "compare_codes a b \<le> 0 \<or> compare_codes b a \<le> 0"
  by (induction a b rule: compare_codes.induct) auto

lemma compare_codes_trans:
  "compare_codes a b \<le> 0 \<Longrightarrow> compare_codes b c \<le> 0 \<Longrightarrow> compare_codes a c \<le> 0"
proof (induction a b arbitrary: c rule: compare_codes.induct)
  case 1
  then show ?case by simp
next
  case (2 y ys)
  then show ?case by (cases c) simp_all
next
  case (3 x xs)
  then show ?case by simp
next
  case (4 x xs y ys)
  show ?case
  proof (cases c)
    case Nil
    with "4.prems" show ?thesis by simp
  next
    case (Cons z zs)
    from "4.prems"(1) have xy: "x < y \<or> (x = y \<and> compare_codes xs ys \<le> 0)"
      by (simp split: if_splits)
    from "4.prems"(2) have yz: "y < z \<or> (y = z \<and> compare_codes ys zs \<le> 0)"
      by (simp add: Cons split: if_splits)
    show ?thesis
    proof (cases "x < z")
      case True
      then show ?thesis by (simp add: Cons)
    next
      case False
      with xy yz have eq: "x = y" "y = z" and r: "compare_codes xs ys \<le> 0" "compare_codes ys zs \<le> 0"
        by auto
      from "4.IH" [of zs] eq r have "compare_codes xs zs \<le> 0"
        by simp
      with eq show ?thesis by (simp add: Cons)
    qed
  qed
qed

lemma total_preorder_ascii_compare: "total_preorder ascii_compare"
proof -
  have t: "\<forall>a b. ascii_compare a b \<le> 0 \<or> ascii_compare b a \<le> 0"
    by (simp add: ascii_compare_def compare_codes_total)
  have "ascii_compare a c \<le> 0" if "ascii_compare a b \<le> 0" "ascii_compare b c \<le> 0" for a b c
    using that unfolding ascii_compare_def by (rule compare_codes_trans)
  with t show ?thesis
    unfolding total_preorder_def by blast
qed

lemma total_preorder_sample: "total_preorder (localeCompare sample_platform)"
  using total_preorder_ascii_compare by (simp add: sample_platform_def)

lemma all_arrays_samples:
  "all_arrays untitled_payload" "all_arrays catalog_payload" "all_arrays slug_payload"
  "all_arrays epoch_payload" "all_arrays key_payload" "all_arrays partial_payload"
  by code_simp+

lemma all_iterable_samples:
  "all_iterable untitled_payload" "all_iterable catalog_payload" "all_iterable slug_payload"
  "all_iterable epoch_payload" "all_iterable key_payload" "all_iterable partial_payload"
  by code_simp+

lemma catalog_example: "normaliseResources sample_platform catalog_payload = Inr [catalog_document]"
  by code_simp

lemma ex_conj2E:
  assumes "\<exists>x. A x \<and> B x \<and> C x"
  obtains x where "A x" "B x"
  using assms by blast

section \<open>The claims\<close>

text \<open>
  Claim C1. For every raw entry, the dedup key computed by the code is the key in the words
  of the specification: the document number if it is present, else the API name, else the
  name of the first option, else "Untitled"; and the document number computed for the entry
  is the same string. An entry with no document number, no API name and no options has key
  and document number "Untitled". A payload whose groups are arrays and whose options can
  be iterated normalises to a list that holds, for each of its entries, a document with the
  key of the entry as its key and its document number.
\<close>

theorem dedup_key_choice:
  "entry_key entry = spec_key entry \<and>
   entry_documentNumber entry = spec_key entry \<and>
   ((entry = None \<or>
     (\<exists>e. entry = Some e \<and> absent (document_number e) \<and>
        (api_description e = None \<or> (\<exists>a. api_description e = Some a \<and> absent (api_name a))) \<and>
        (options e = None \<or> options e = Some (OptionsArray []))))
    \<longrightarrow> entry_key entry = ''Untitled'' \<and> entry_documentNumber entry = ''Untitled'') \<and>
   (\<forall>p c. all_arrays p \<and> all_iterable p \<and> (c, entry) \<in> set (flat_entries p) \<longrightarrow>
      (\<exists>docs d. normaliseResources P p = Inr docs \<and> d \<in> set docs \<and>
         key d = spec_key entry \<and> documentNumber d = spec_key entry))"
proof (intro conjI allI impI)
  show k: "entry_key entry = spec_key entry"
    by (rule entry_key_spec)
  show dn: "entry_documentNumber entry = spec_key entry"
    using entry_key_spec [of entry] by (simp add: entry_key_documentNumber)
  have untitled: "spec_key entry = ''Untitled''"
    if "entry = None \<or>
     (\<exists>e. entry = Some e \<and> absent (document_number e) \<and>
        (api_description e = None \<or> (\<exists>a. api_description e = Some a \<and> absent (api_name a))) \<and>
        (options e = None \<or> options e = Some (OptionsArray [])))"
    using that
    by (auto simp: spec_key_def spec_document_number_def spec_api_name_def
        spec_first_option_name_def absent_def)
  show "entry_key entry = ''Untitled''"
    if "entry = None \<or>
     (\<exists>e. entry = Some e \<and> absent (document_number e) \<and>
        (api_description e = None \<or> (\<exists>a. api_description e = Some a \<and> absent (api_name a))) \<and>
        (options e = None \<or> options e = Some (OptionsArray [])))"
    using untitled [OF that] k by simp
  show "entry_documentNumber entry = ''Untitled''"
    if "entry = None \<or>
     (\<exists>e. entry = Some e \<and> absent (document_number e) \<and>
        (api_description e = None \<or> (\<exists>a. api_description e = Some a \<and> absent (api_name a))) \<and>
        (options e = None \<or> options e = Some (OptionsArray [])))"
    using untitled [OF that] dn by simp
next
  fix p c
  assume a: "all_arrays p \<and> all_iterable p \<and> (c, entry) \<in> set (flat_entries p)"
  let ?es = "flat_entries p"
  let ?docs = "sort_by (document_cmp P) (build_documents P (fold_all ?es []) [])"
  have n: "normaliseResources P p = Inr ?docs"
    using a by (simp add: normalise_all_arrays)
  have "entry_key (snd (c, entry)) \<in> (\<lambda>ce. entry_key (snd ce)) ` set ?es"
    using a by (intro imageI) simp
  then have "entry_key entry \<in> set (map key ?docs)"
    by (simp only: keys_sorted_documents snd_conv)
  then obtain d where d: "d \<in> set ?docs" "key d = entry_key entry"
    by auto
  from d(1) obtain slug ce cs where cs: "contributors ?es (key d) = ce # cs"
      and dm: "d = make_document P slug (key d) (doc_of (ce # cs))"
    using normalised_doc by blast
  have "ce \<in> set (contributors ?es (key d))" by (simp add: cs)
  then have ce: "entry_key (snd ce) = key d" by (simp add: contributors_set)
  have "acc_documentNumber (doc_of (ce # cs)) = key d"
    using doc_of_fixed [of "fst ce" "snd ce" cs] ce by simp
  then have "documentNumber d = str_or (key d) (key d)"
    by (subst dm) (simp add: make_document_fields)
  then have dn: "documentNumber d = key d" by (simp add: str_or_def)
  show "\<exists>docs d. normaliseResources P p = Inr docs \<and> d \<in> set docs \<and>
       key d = spec_key entry \<and> documentNumber d = spec_key entry"
    using n d dn by (intro exI [of _ ?docs] exI [of _ d]) (simp add: entry_key_spec)
qed

theorem dedup_key_choice_witness:
  "entry_key (Some numbered_entry) = ''TMF620'' \<and>
   entry_key (Some named_entry) = ''Party'' \<and>
   entry_key (Some option_entry) = ''Spec'' \<and>
   entry_key (Some blank_entry) = ''Untitled'' \<and>
   entry_documentNumber (Some blank_entry) = ''Untitled'' \<and>
   entry_key None = ''Untitled'' \<and>
   all_arrays key_payload \<and> all_iterable key_payload \<and>
   (''Open APIs'', Some option_entry) \<in> set (flat_entries key_payload) \<and>
   (\<exists>docs d. normaliseResources sample_platform key_payload = Inr docs \<and> d \<in> set docs \<and>
       key d = ''Spec'' \<and> documentNumber d = ''Spec'')"
proof -
  have s: "spec_key (Some numbered_entry) = ''TMF620''" "spec_key (Some named_entry) = ''Party''"
    "spec_key (Some option_entry) = ''Spec''" "spec_key (Some blank_entry) = ''Untitled''"
    "spec_key None = ''Untitled''"
    by code_simp+
  have m: "(''Open APIs'', Some option_entry) \<in> set (flat_entries key_payload)"
    by code_simp
  have b: "absent (document_number blank_entry) \<and> api_description blank_entry = None \<and>
    options blank_entry = None"
    by code_simp
  from dedup_key_choice [of "Some numbered_entry" sample_platform] s(1)
  have 1: "entry_key (Some numbered_entry) = ''TMF620''"
    by simp
  from dedup_key_choice [of "Some named_entry" sample_platform] s(2)
  have 2: "entry_key (Some named_entry) = ''Party''"
    by simp
  from dedup_key_choice [of "Some option_entry" sample_platform] s(3)
  have 3: "entry_key (Some option_entry) = ''Spec''"
    by simp
  have pre: "all_arrays key_payload \<and> all_iterable key_payload \<and>
      (''Open APIs'', Some option_entry) \<in> set (flat_entries key_payload)"
    using all_arrays_samples(5) all_iterable_samples(5) m by (intro conjI)
  from dedup_key_choice [of "Some option_entry" sample_platform, THEN conjunct2, THEN conjunct2,
      THEN conjunct2, rule_format, OF pre] s(3)
  have 6: "\<exists>docs d. normaliseResources sample_platform key_payload = Inr docs \<and> d \<in> set docs \<and>
       key d = ''Spec'' \<and> documentNumber d = ''Spec''"
    by simp
  from b have bp: "Some blank_entry = None \<or>
     (\<exists>e. Some blank_entry = Some e \<and> absent (document_number e) \<and>
        (api_description e = None \<or> (\<exists>a. api_description e = Some a \<and> absent (api_name a))) \<and>
        (options e = None \<or> options e = Some (OptionsArray [])))"
    by simp
  from dedup_key_choice [of "Some blank_entry" sample_platform, THEN conjunct2, THEN conjunct2,
      THEN conjunct1, rule_format, OF bp]
  have 4: "entry_key (Some blank_entry) = ''Untitled''"
    "entry_documentNumber (Some blank_entry) = ''Untitled''"
    by blast+
  from dedup_key_choice [of None sample_platform] s(5)
  have 5: "entry_key None = ''Untitled''"
    by simp
  from 1 2 3 4 5 6 all_arrays_samples(5) all_iterable_samples(5) m show ?thesis
    by (intro conjI)
qed



text \<open>
  Claim C3. As amended: for a payload whose groups are arrays and whose options can be
  iterated, the ids of the documents of one normalisation run are pairwise distinct and each
  id resolves to its own document in the document map. There is one document for each key,
  and the key that is the k-th to appear in the payload (k from 1) gets as its id the slug
  base of the key followed by copies of the one suffix "-k": as few copies as make the id
  differ from the ids of the keys that appeared before it. The suffix is appended again, not
  incremented, as long as the slug is taken.
\<close>

theorem slug_ids_distinct:
  assumes "all_arrays p" and "all_iterable p"
  shows "\<exists>docs. normaliseResources P p = Inr docs \<and>
     distinct (map doc_id docs) \<and>
     (\<forall>d \<in> set docs. map_of (document_map docs) (doc_id d) = Some d) \<and>
     distinct (key_order p) \<and> set (map key docs) = set (key_order p) \<and>
     length docs = length (key_order p) \<and>
     (\<forall>i<length (key_order p). \<exists>d \<in> set docs. \<exists>n.
        key d = key_order p ! i \<and>
        doc_id d = slug_candidate (createSlug P (key d)) (''-'' @ show_nat (i + 1)) n \<and>
        (\<forall>j<n. slug_candidate (createSlug P (key d)) (''-'' @ show_nat (i + 1)) j
                 \<in> doc_id ` {d' \<in> set docs. key d' \<in> set (take i (key_order p))}) \<and>
        doc_id d \<notin> doc_id ` {d' \<in> set docs. key d' \<in> set (take i (key_order p))})"
proof -
  let ?m = "fold_all (flat_entries p) []"
  let ?b = "build_documents P ?m []"
  let ?docs = "sort_by (document_cmp P) ?b"
  have n: "normaliseResources P p = Inr ?docs"
    using assms by (rule normalise_all_arrays)
  have dist: "distinct (map doc_id ?docs)"
    using ids_build_documents [of P ?m "[]"]
    by (simp add: distinct_map_sort_by)
  have look: "\<forall>d \<in> set ?docs. map_of (document_map ?docs) (doc_id d) = Some d"
    using dist by (blast intro: document_map_lookup)
  have ko: "key_order p = map fst ?m"
    by (simp add: key_order_def key_order_fold_all)
  have kb: "map key ?b = key_order p"
    by (simp add: ko keys_build_documents)
  have dk: "distinct (key_order p)"
    by (simp add: key_order_def)
  have "set (map key ?docs) = set (map key ?b)"
    by (simp add: set_sort_by)
  then have sk: "set (map key ?docs) = set (key_order p)"
    by (simp only: kb)
  have len: "length ?docs = length (key_order p)"
    by (simp add: length_sort_by build_documents_length ko)
  have lb: "length ?b = length (key_order p)"
    by (simp add: build_documents_length ko)
  have dkb: "distinct (map key ?b)"
    using dk kb by simp
  have shape: "\<exists>d \<in> set ?docs. \<exists>n.
        key d = key_order p ! i \<and>
        doc_id d = slug_candidate (createSlug P (key d)) (''-'' @ show_nat (i + 1)) n \<and>
        (\<forall>j<n. slug_candidate (createSlug P (key d)) (''-'' @ show_nat (i + 1)) j
                 \<in> doc_id ` {d' \<in> set ?docs. key d' \<in> set (take i (key_order p))}) \<and>
        doc_id d \<notin> doc_id ` {d' \<in> set ?docs. key d' \<in> set (take i (key_order p))}"
    if i: "i < length (key_order p)" for i
  proof -
    have im: "i < length ?m"
      using i by (simp add: ko)
    have ib: "i < length ?b"
      using i lb by simp
    have mem: "?b ! i \<in> set ?docs"
      using ib by (simp add: set_sort_by)
    have "key (?b ! i) = map key ?b ! i"
      using ib by simp
    then have k: "key (?b ! i) = key_order p ! i"
      by (simp only: kb)
    have km: "fst (?m ! i) = key (?b ! i)"
      using k im by (simp add: ko)
    have "{d' \<in> set ?b. key d' \<in> set (take i (map key ?b))} = set (take i ?b)"
      using dkb ib by (intro take_keys) simp_all
    then have earlier: "{d' \<in> set ?docs. key d' \<in> set (take i (key_order p))} = set (take i ?b)"
      by (simp only: kb set_sort_by)
    from build_documents_candidates [OF im, of P] obtain n where
      id: "doc_id (?b ! i) = slug_candidate (createSlug P (fst (?m ! i))) (''-'' @ show_nat (i + 1)) n"
      and below: "\<forall>j<n. slug_candidate (createSlug P (fst (?m ! i))) (''-'' @ show_nat (i + 1)) j
                 \<in> doc_id ` set (take i ?b)"
      and fresh: "doc_id (?b ! i) \<notin> doc_id ` set (take i ?b)"
      by blast
    show ?thesis
    proof (intro bexI [of _ "?b ! i"] exI [of _ n] conjI)
      show "key (?b ! i) = key_order p ! i" by (rule k)
      show "doc_id (?b ! i) = slug_candidate (createSlug P (key (?b ! i))) (''-'' @ show_nat (i + 1)) n"
        using id unfolding km .
      show "\<forall>j<n. slug_candidate (createSlug P (key (?b ! i))) (''-'' @ show_nat (i + 1)) j
                 \<in> doc_id ` {d' \<in> set ?docs. key d' \<in> set (take i (key_order p))}"
        using below unfolding km earlier .
      show "doc_id (?b ! i) \<notin> doc_id ` {d' \<in> set ?docs. key d' \<in> set (take i (key_order p))}"
        using fresh unfolding earlier .
      show "?b ! i \<in> set ?docs" by (rule mem)
    qed
  qed
  show ?thesis
  proof (rule exI [of _ ?docs], intro conjI)
    show "normaliseResources P p = Inr ?docs" by (rule n)
    show "distinct (map doc_id ?docs)" by (rule dist)
    show "\<forall>d \<in> set ?docs. map_of (document_map ?docs) (doc_id d) = Some d" by (rule look)
    show "distinct (key_order p)" by (rule dk)
    show "set (map key ?docs) = set (key_order p)" by (rule sk)
    show "length ?docs = length (key_order p)" by (rule len)
    show "\<forall>i<length (key_order p). \<exists>d \<in> set ?docs. \<exists>n.
        key d = key_order p ! i \<and>
        doc_id d = slug_candidate (createSlug P (key d)) (''-'' @ show_nat (i + 1)) n \<and>
        (\<forall>j<n. slug_candidate (createSlug P (key d)) (''-'' @ show_nat (i + 1)) j
                 \<in> doc_id ` {d' \<in> set ?docs. key d' \<in> set (take i (key_order p))}) \<and>
        doc_id d \<notin> doc_id ` {d' \<in> set ?docs. key d' \<in> set (take i (key_order p))}"
      using shape by (intro allI impI)
  qed
qed

text \<open>
  The claim as stated has the suffix incremented until the slug is unique. With the keys
  "a-3", "a" and "a!" in this order, the slug "a" of the third key is taken, the slug "a-3"
  built from it is taken as well, and the id is "a-3-3"; incrementing would give "a-4".
\<close>

theorem slug_suffix_counterexample:
  "key_order slug_payload = [''a-3'', ''a'', ''a!''] \<and>
   map key (projr (normaliseResources sample_platform slug_payload)) = [''a'', ''a!'', ''a-3''] \<and>
   map doc_id (projr (normaliseResources sample_platform slug_payload)) = [''a'', ''a-3-3'', ''a-3''] \<and>
   unique_slug [''a-3'', ''a''] (createSlug sample_platform ''a!'') = ''a-3-3'' \<and>
   slug_candidate (createSlug sample_platform ''a!'') ''-3'' 2 = ''a-3-3'' \<and>
   spec_incrementing_slug [''a-3'', ''a''] (createSlug sample_platform ''a!'') = ''a-4''"
  by code_simp

theorem slug_ids_distinct_witness:
  "all_arrays slug_payload \<and> all_iterable slug_payload \<and>
   (\<exists>docs. normaliseResources sample_platform slug_payload = Inr docs \<and>
      distinct (map doc_id docs) \<and> length docs = 3 \<and>
      (\<exists>d \<in> set docs. key d = ''a!'' \<and> doc_id d = ''a-3-3''))"
proof -
  from slug_ids_distinct [OF all_arrays_samples(3) all_iterable_samples(3), of sample_platform]
  obtain docs where d: "normaliseResources sample_platform slug_payload = Inr docs"
    "distinct (map doc_id docs)"
    by (rule ex_conj2E)
  have "length (projr (normaliseResources sample_platform slug_payload)) = 3 \<and>
    projr (normaliseResources sample_platform slug_payload) ! 1 \<in>
      set (projr (normaliseResources sample_platform slug_payload)) \<and>
    key (projr (normaliseResources sample_platform slug_payload) ! 1) = ''a!'' \<and>
    doc_id (projr (normaliseResources sample_platform slug_payload) ! 1) = ''a-3-3''"
    by code_simp
  with d have "length docs = 3 \<and> docs ! 1 \<in> set docs \<and> key (docs ! 1) = ''a!'' \<and>
      doc_id (docs ! 1) = ''a-3-3''"
    by simp
  then have "length docs = 3 \<and> (\<exists>d \<in> set docs. key d = ''a!'' \<and> doc_id d = ''a-3-3'')"
    by blast
  with d all_arrays_samples(3) all_iterable_samples(3) show ?thesis by simp
qed

text \<open>
  Claim C4. As amended: on a platform whose string comparison is a total preorder, and for a
  payload whose groups are arrays and whose options can be iterated, the versions of every
  document are sorted descending by the parsed timestamp of the published date,
  ties broken by descending comparison of the version labels. A date that the parser rejects,
  the empty one among them, has timestamp 0, so its version stands after every version with a
  positive timestamp; it stands last only when no version is dated before 1970.
\<close>

theorem versions_sorted_by_date:
  assumes "total_preorder (localeCompare P)" and "all_arrays p" and "all_iterable p"
  shows "\<exists>docs. normaliseResources P p = Inr docs \<and>
     (\<forall>d \<in> set docs.
        sorted_wrt (\<lambda>a b. parseDate P (published b) < parseDate P (published a) \<or>
                      (parseDate P (published a) = parseDate P (published b) \<and>
                       compareStrings P (version b) (version a) \<le> 0)) (versions d) \<and>
        (\<forall>i j. i < length (versions d) \<and> j < length (versions d) \<and>
               parseDate P (published (versions d ! i)) = 0 \<and>
               0 < parseDate P (published (versions d ! j)) \<longrightarrow> j < i)) \<and>
     (\<forall>v. date_parse P (cleaned_date v) = None \<longrightarrow> parseDate P v = 0) \<and>
     cleaned_date [] = []"
proof -
  let ?es = "flat_entries p"
  let ?docs = "sort_by (document_cmp P) (build_documents P (fold_all ?es []) [])"
  let ?R = "\<lambda>a b. parseDate P (published b) < parseDate P (published a) \<or>
                      (parseDate P (published a) = parseDate P (published b) \<and>
                       compareStrings P (version b) (version a) \<le> 0)"
  have n: "normaliseResources P p = Inr ?docs"
    using assms(2,3) by (rule normalise_all_arrays)
  have each: "sorted_wrt ?R (versions d) \<and>
        (\<forall>i j. i < length (versions d) \<and> j < length (versions d) \<and>
               parseDate P (published (versions d ! i)) = 0 \<and>
               0 < parseDate P (published (versions d ! j)) \<longrightarrow> j < i)"
    if "d \<in> set ?docs" for d
  proof -
    from that obtain slug ce cs where
      dm: "d = make_document P slug (key d) (doc_of (ce # cs))"
      using normalised_doc by blast
    have "versions d = sorted_versions P (doc_of (ce # cs))"
      by (subst dm) (simp add: make_document_fields)
    with sorted_versions_sorted [OF assms(1), of "doc_of (ce # cs)"]
    have "sorted_wrt (\<lambda>a b. version_cmp P a b \<le> 0) (versions d)"
      by simp
    then have s: "sorted_wrt ?R (versions d)"
      by (simp add: version_cmp_le)
    have "j < i" if ij: "i < length (versions d)" "j < length (versions d)"
      "parseDate P (published (versions d ! i)) = 0"
      "0 < parseDate P (published (versions d ! j))" for i j
    proof (rule ccontr)
      assume "\<not> j < i"
      with ij have "i < j" by (cases "i = j") auto
      from sorted_wrt_nth_less [OF s this ij(2)] ij(3,4) show False by simp
    qed
    with s show ?thesis by blast
  qed
  have unparsable: "\<forall>v. date_parse P (cleaned_date v) = None \<longrightarrow> parseDate P v = 0"
    by (simp add: parseDate_cleaned)
  have empty: "cleaned_date [] = []"
    by (simp add: cleaned_date_def trim_empty)
  show ?thesis
  proof (rule exI [of _ ?docs], intro conjI)
    show "normaliseResources P p = Inr ?docs" by (rule n)
    show "\<forall>d \<in> set ?docs. sorted_wrt ?R (versions d) \<and>
        (\<forall>i j. i < length (versions d) \<and> j < length (versions d) \<and>
               parseDate P (published (versions d ! i)) = 0 \<and>
               0 < parseDate P (published (versions d ! j)) \<longrightarrow> j < i)"
      using each by blast
    show "\<forall>v. date_parse P (cleaned_date v) = None \<longrightarrow> parseDate P v = 0" by (rule unparsable)
    show "cleaned_date [] = []" by (rule empty)
  qed
qed

text \<open>
  The claim as stated has an undated version sort last. A version dated 1965 has a negative
  timestamp and sorts after the undated one.
\<close>

theorem empty_date_counterexample:
  "map (map published \<circ> versions) (projr (normaliseResources sample_platform epoch_payload)) =
     [[[], ''1965-01-01'']] \<and>
   parseDate sample_platform [] = 0 \<and>
   parseDate sample_platform ''1965-01-01'' = - 157766400000"
  by code_simp

theorem versions_sorted_by_date_witness:
  "total_preorder (localeCompare sample_platform) \<and> all_arrays catalog_payload \<and>
   all_iterable catalog_payload \<and>
   (\<exists>docs. normaliseResources sample_platform catalog_payload = Inr docs \<and>
      map (map published \<circ> versions) docs = [[''2024-06-15'', ''2023-01-01'']])"
proof -
  from versions_sorted_by_date [OF total_preorder_sample all_arrays_samples(2) all_iterable_samples(2)]
  obtain docs where d: "normaliseResources sample_platform catalog_payload = Inr docs"
    by blast
  have "map (map published \<circ> versions) (projr (normaliseResources sample_platform catalog_payload)) =
      [[''2024-06-15'', ''2023-01-01'']]"
    by code_simp
  with d total_preorder_sample all_arrays_samples(2) all_iterable_samples(2) show ?thesis by simp
qed

text \<open>
  Claim C5. After a change of the search, category, domain or sort input the current page is
  page 1, whatever it was before; and \<open>applyFilters\<close> itself sets the page to 1, not to the
  last page, when the page it finds exceeds the page count of the new result.
\<close>

theorem filter_change_resets_page:
  "currentPage (on_search_input P v s) = 1 \<and>
   currentPage (on_category_change P v s) = 1 \<and>
   currentPage (on_domain_change P v s) = 1 \<and>
   currentPage (on_sort_change P v s) = 1 \<and>
   (ceil_pages (max (length (filter (matches_filters s) (documents s))) 1) < currentPage s
      \<longrightarrow> currentPage (applyFilters P s) = 1)"
proof -
  have reset: "currentPage (applyFilters P t) = 1" if "currentPage t = 1" for t
  proof -
    have "0 < ceil_pages (max (length (filter (matches_filters t) (documents t))) 1)"
      by (rule ceil_pages_pos) simp
    with that show ?thesis
      by (simp add: applyFilters_def Let_def length_sortDocuments renderRoute_page_one)
  qed
  have over: "currentPage (applyFilters P s) = 1"
    if "ceil_pages (max (length (filter (matches_filters s) (documents s))) 1) < currentPage s"
    using that by (simp add: applyFilters_def Let_def length_sortDocuments renderRoute_page_one)
  from reset over show ?thesis
    by (simp add: on_search_input_def on_category_change_def on_domain_change_def
        on_sort_change_def)
qed

theorem filter_change_resets_page_witness:
  "ceil_pages (max (length (filter
       (matches_filters ((loaded_app ''#/'' index_route [catalog_document])\<lparr>currentPage := 5\<rparr>))
       (documents ((loaded_app ''#/'' index_route [catalog_document])\<lparr>currentPage := 5\<rparr>)))) 1)
     < currentPage ((loaded_app ''#/'' index_route [catalog_document])\<lparr>currentPage := 5\<rparr>) \<and>
   currentPage (applyFilters sample_platform
     ((loaded_app ''#/'' index_route [catalog_document])\<lparr>currentPage := 5\<rparr>)) = 1 \<and>
   currentPage (on_search_input sample_platform ''Catalog''
     ((loaded_app ''#/'' index_route [catalog_document])\<lparr>currentPage := 5\<rparr>)) = 1"
proof -
  let ?s = "(loaded_app ''#/'' index_route [catalog_document])\<lparr>currentPage := 5\<rparr>"
  have h: "ceil_pages (max (length (filter (matches_filters ?s) (documents ?s))) 1) < currentPage ?s"
    by code_simp
  from filter_change_resets_page [of sample_platform "''Catalog''" ?s] h show ?thesis
    by blast
qed

text \<open>
  Claim C6. As amended: while the document collection is not empty, rendering a detail route
  whose id is not in the document map surfaces the notice and redirects to the index route;
  an id that is in the map but not among the filtered documents redirects to the index route
  and leaves the banner as it is; and an id that is in the map and among the filtered
  documents keeps the route and draws the detail view of its document, the banner unchanged.
  The filtered documents are, after every run of \<open>applyFilters\<close>, the documents that satisfy
  the filter predicate.
\<close>

theorem detail_route_reconciliation:
  assumes "documents s \<noteq> []" and "route s = \<lparr>view = DetailView, route_id = Some i\<rparr>"
  shows "(map_of (documentMap s) i = None \<longrightarrow>
            redirected_to_index P s (renderRoute s) \<and>
            \<not> status_hidden (renderRoute s) \<and>
            status_message (renderRoute s) = not_found_notice \<and>
            status_error (renderRoute s)) \<and>
         (\<forall>doc. map_of (documentMap s) i = Some doc \<longrightarrow>
            (if i \<in> doc_id ` set (filtered s)
             then route (renderRoute s) = route s \<and>
                  detail_content (renderRoute s) = Some (doc_id doc) \<and>
                  location_hash (renderRoute s) = location_hash s \<and>
                  pending_hashchange (renderRoute s) = pending_hashchange s
             else redirected_to_index P s (renderRoute s)) \<and>
            same_status s (renderRoute s)) \<and>
         set (filtered (applyFilters P s0)) = {d \<in> set (documents s0). matches_filters s0 d}"
proof (intro conjI impI allI)
  let ?t = "setStatus not_found_notice True False (s\<lparr>detail_hidden := False\<rparr>)"
  assume missing: "map_of (documentMap s) i = None"
  have r: "renderRoute s = navigateToIndex ?t"
    using assms missing by (simp add: renderRoute.simps [of s] not_found_notice_def)
  have t: "documents ?t \<noteq> []" "view (route ?t) = DetailView" "location_hash ?t = location_hash s"
    "pending_hashchange ?t = pending_hashchange s" "route ?t = route s"
    "detail_content ?t = detail_content s"
    using assms by (simp_all add: setStatus_def)
  show "redirected_to_index P s (renderRoute s)"
  proof (cases "location_hash s \<in> set index_hashes")
    case True
    with t show ?thesis
      by (simp add: r navigateToIndex_direct redirected_to_index_def)
  next
    case False
    let ?u = "?t\<lparr>location_hash := ''#/'', pending_hashchange := pending_hashchange ?t + 1\<rparr>"
    have u: "renderRoute s = ?u"
      using False t by (simp add: r navigateToIndex_hash)
    have "documents ?u \<noteq> []" "view (route ?u) = DetailView" "location_hash ?u = ''#/''"
      "0 < pending_hashchange ?u"
      using t by simp_all
    from deliver_after_redirect [OF this, of P]
    obtain s'' where "deliver_hashchange P ?u = Inr s''" "route s'' = index_route"
      "detail_content s'' = None" "location_hash s'' = ''#/''"
      "pending_hashchange s'' = pending_hashchange ?u - 1" "same_status ?u s''"
      by blast
    with False t show ?thesis
      by (simp add: u redirected_to_index_def)
  qed
  have direct: "renderRoute s =
      renderIndex (?t\<lparr>route := index_route, detail_hidden := True, detail_content := None\<rparr>)"
    if "location_hash s \<in> set index_hashes"
    using that t by (simp add: r navigateToIndex_direct)
  have viahash: "renderRoute s =
      ?t\<lparr>location_hash := ''#/'', pending_hashchange := pending_hashchange ?t + 1\<rparr>"
    if "location_hash s \<notin> set index_hashes"
    using that t by (simp add: r navigateToIndex_hash)
  show "\<not> status_hidden (renderRoute s)"
    using direct viahash by (cases "location_hash s \<in> set index_hashes") (simp_all add: setStatus_def)
  show "status_message (renderRoute s) = not_found_notice"
    using direct viahash by (cases "location_hash s \<in> set index_hashes") (simp_all add: setStatus_def)
  show "status_error (renderRoute s)"
    using direct viahash by (cases "location_hash s \<in> set index_hashes") (simp_all add: setStatus_def)
next
  fix doc
  assume found: "map_of (documentMap s) i = Some doc"
  let ?t = "s\<lparr>detail_hidden := False\<rparr>"
  show "if i \<in> doc_id ` set (filtered s)
        then route (renderRoute s) = route s \<and>
             detail_content (renderRoute s) = Some (doc_id doc) \<and>
             location_hash (renderRoute s) = location_hash s \<and>
             pending_hashchange (renderRoute s) = pending_hashchange s
        else redirected_to_index P s (renderRoute s)"
  proof (cases "i \<in> doc_id ` set (filtered s)")
    case True
    then have "list_ex (\<lambda>item. Some (doc_id item) = route_id (route s)) (filtered s)"
      using assms(2) by (auto simp: list_ex_iff)
    with True assms found show ?thesis
      by (simp add: renderRoute.simps [of s] renderDetail_def)
  next
    case False
    then have "\<not> list_ex (\<lambda>item. Some (doc_id item) = route_id (route s)) (filtered s)"
      using assms(2) by (auto simp: list_ex_iff)
    with assms found have r: "renderRoute s = navigateToIndex ?t"
      by (simp add: renderRoute.simps [of s])
    have t: "documents ?t \<noteq> []" "view (route ?t) = DetailView"
      using assms by simp_all
    show ?thesis
    proof (cases "location_hash s \<in> set index_hashes")
      case True
      with t False show ?thesis
        by (simp add: r navigateToIndex_direct redirected_to_index_def)
    next
      case nothash: False
      let ?u = "?t\<lparr>location_hash := ''#/'', pending_hashchange := pending_hashchange ?t + 1\<rparr>"
      have u: "renderRoute s = ?u"
        using nothash by (simp add: r navigateToIndex_hash)
      have "documents ?u \<noteq> []" "view (route ?u) = DetailView" "location_hash ?u = ''#/''"
        "0 < pending_hashchange ?u"
        using t by simp_all
      from deliver_after_redirect [OF this, of P]
      obtain s'' where "deliver_hashchange P ?u = Inr s''" "route s'' = index_route"
        "detail_content s'' = None" "location_hash s'' = ''#/''"
        "pending_hashchange s'' = pending_hashchange ?u - 1" "same_status ?u s''"
        by blast
      with nothash False show ?thesis
        by (simp add: u redirected_to_index_def)
    qed
  qed
  show "same_status s (renderRoute s)"
  proof (cases "list_ex (\<lambda>item. Some (doc_id item) = route_id (route s)) (filtered s)")
    case True
    with assms found show ?thesis
      by (simp add: renderRoute.simps [of s] renderDetail_def same_status_def)
  next
    case False
    with assms found have r: "renderRoute s = navigateToIndex ?t"
      by (simp add: renderRoute.simps [of s])
    have t: "documents ?t \<noteq> []" using assms by simp
    show ?thesis
    proof (cases "location_hash s \<in> set index_hashes")
      case True
      with t have "renderRoute s =
          renderIndex (?t\<lparr>route := index_route, detail_hidden := True, detail_content := None\<rparr>)"
        by (simp add: r navigateToIndex_direct)
      then show ?thesis by (simp add: same_status_def)
    next
      case False
      then have "renderRoute s =
          ?t\<lparr>location_hash := ''#/'', pending_hashchange := pending_hashchange ?t + 1\<rparr>"
        by (simp add: r navigateToIndex_hash)
      then show ?thesis by (simp add: same_status_def)
    qed
  qed
next
  show "set (filtered (applyFilters P s0)) = {d \<in> set (documents s0). matches_filters s0 d}"
    by (rule filtered_applyFilters)
qed

text \<open>
  The claim as stated covers every route change to a detail route. Before any payload is
  loaded the collection is empty: a route change to an unknown id keeps the detail route,
  shows no notice and raises no navigation.
\<close>

theorem unloaded_detail_counterexample:
  "handleRouteChange sample_platform (initial_app ''#/document/nope'') =
     Inr ((initial_app ''#/document/nope'')\<lparr>route := detail_route ''nope'', detail_hidden := False\<rparr>) \<and>
   map_of (documentMap (initial_app ''#/document/nope'')) ''nope'' = None \<and>
   status_hidden (initial_app ''#/document/nope'') \<and>
   pending_hashchange (initial_app ''#/document/nope'') = 0"
  by code_simp

theorem detail_route_reconciliation_witness:
  "redirected_to_index sample_platform
     (loaded_app ''#/document/nope'' (detail_route ''nope'') [catalog_document])
     (renderRoute (loaded_app ''#/document/nope'' (detail_route ''nope'') [catalog_document])) \<and>
   status_message (renderRoute (loaded_app ''#/document/nope'' (detail_route ''nope'') [catalog_document])) =
     not_found_notice \<and>
   redirected_to_index sample_platform
     (loaded_app ''#/document/tmf620'' (detail_route ''tmf620'') [])
     (renderRoute (loaded_app ''#/document/tmf620'' (detail_route ''tmf620'') [])) \<and>
   same_status (loaded_app ''#/document/tmf620'' (detail_route ''tmf620'') [])
     (renderRoute (loaded_app ''#/document/tmf620'' (detail_route ''tmf620'') [])) \<and>
   detail_content
     (renderRoute (loaded_app ''#/document/tmf620'' (detail_route ''tmf620'') [catalog_document])) =
     Some ''tmf620''"
proof -
  let ?A = "loaded_app ''#/document/nope'' (detail_route ''nope'') [catalog_document]"
  let ?B = "loaded_app ''#/document/tmf620'' (detail_route ''tmf620'') []"
  let ?C = "loaded_app ''#/document/tmf620'' (detail_route ''tmf620'') [catalog_document]"
  have docs: "documents ?A \<noteq> []" "documents ?B \<noteq> []" "documents ?C \<noteq> []"
    by (simp_all add: loaded_app_def)
  have routes: "route ?A = \<lparr>view = DetailView, route_id = Some ''nope''\<rparr>"
    "route ?B = \<lparr>view = DetailView, route_id = Some ''tmf620''\<rparr>"
    "route ?C = \<lparr>view = DetailView, route_id = Some ''tmf620''\<rparr>"
    by (simp_all add: loaded_app_def detail_route_def)
  have a: "map_of (documentMap ?A) ''nope'' = None"
    by code_simp
  have b: "map_of (documentMap ?B) ''tmf620'' = Some catalog_document"
    "''tmf620'' \<notin> doc_id ` set (filtered ?B)"
    by code_simp+
  have c: "map_of (documentMap ?C) ''tmf620'' = Some catalog_document"
    "''tmf620'' \<in> doc_id ` set (filtered ?C)"
    by code_simp+
  have id: "doc_id catalog_document = ''tmf620''"
    by (simp add: catalog_document_def)
  from detail_route_reconciliation [OF docs(1) routes(1), of sample_platform] a
  have 1: "redirected_to_index sample_platform ?A (renderRoute ?A)"
    "status_message (renderRoute ?A) = not_found_notice"
    by blast+
  from detail_route_reconciliation [OF docs(2) routes(2), of sample_platform] b
  have 2: "redirected_to_index sample_platform ?B (renderRoute ?B)"
    "same_status ?B (renderRoute ?B)"
    by auto
  from detail_route_reconciliation [OF docs(3) routes(3), of sample_platform] c
  have 3: "detail_content (renderRoute ?C) = Some (doc_id catalog_document)"
    by auto
  from 1 2 3 id show ?thesis by simp
qed

text \<open>
  Claim C7. As amended: for a payload whose groups are arrays and whose options can be
  iterated, the description of a document is the first non-empty description among the
  entries of its key, in fold order; its document number is its key; its API name is the
  API name of the first entry of its key when that is non-empty and the key otherwise, so
  the API name of a later entry is not adopted. No entry whose options can be iterated
  changes the document number or the API name of an accumulator, nor a description that is
  non-empty.
\<close>

theorem first_value_wins:
  assumes "all_arrays p" and "all_iterable p"
  shows "(\<exists>docs. normaliseResources P p = Inr docs \<and>
       (\<forall>d \<in> set docs. \<exists>c e rest.
          contributors (flat_entries p) (key d) = (c, e) # rest \<and>
          documentNumber d = key d \<and>
          apiName d = or_else (entry_api_name e) (key d) \<and>
          description d = first_non_empty (map (\<lambda>ce. entry_api_description (snd ce)) ((c, e) # rest)))) \<and>
     (\<forall>c e a. options_iterable e \<longrightarrow>
        (\<exists>a'. merge_doc c e a = Inr a' \<and>
           acc_documentNumber a' = acc_documentNumber a \<and>
           acc_apiName a' = acc_apiName a \<and>
           (acc_description a \<noteq> [] \<longrightarrow> acc_description a' = acc_description a)))"
proof -
  let ?es = "flat_entries p"
  let ?docs = "sort_by (document_cmp P) (build_documents P (fold_all ?es []) [])"
  have n: "normaliseResources P p = Inr ?docs"
    using assms by (rule normalise_all_arrays)
  have each: "\<exists>c e rest.
          contributors ?es (key d) = (c, e) # rest \<and>
          documentNumber d = key d \<and>
          apiName d = or_else (entry_api_name e) (key d) \<and>
          description d = first_non_empty (map (\<lambda>ce. entry_api_description (snd ce)) ((c, e) # rest))"
    if "d \<in> set ?docs" for d
  proof -
    from that obtain slug ce cs where cs: "contributors ?es (key d) = ce # cs"
      and dm: "d = make_document P slug (key d) (doc_of (ce # cs))"
      using normalised_doc by blast
    obtain c e where ce: "ce = (c, e)" by (cases ce)
    have "ce \<in> set (contributors ?es (key d))" by (simp add: cs)
    then have k: "entry_key e = key d" by (simp add: contributors_set ce)
    have fx: "acc_documentNumber (doc_of (ce # cs)) = key d"
      "acc_apiName (doc_of (ce # cs)) = entry_apiName e"
      using doc_of_fixed [of c e cs] k by (simp_all add: ce)
    have "documentNumber d = str_or (key d) (key d)"
      by (subst dm) (simp add: make_document_fields fx)
    then have 1: "documentNumber d = key d" by (simp add: str_or_def)
    have an: "entry_apiName e = or_else (entry_api_name e) (key d)"
      by (simp add: entry_apiName_def entry_key_documentNumber [symmetric] k)
    have "entry_apiName e \<noteq> []"
      by (simp add: entry_apiName_def or_else_def entry_documentNumber_nonempty split: option.splits)
    moreover have "apiName d = str_or (entry_apiName e) (str_or (key d) (key d))"
      by (subst dm) (simp add: make_document_fields fx)
    ultimately have 2: "apiName d = or_else (entry_api_name e) (key d)"
      by (simp add: str_or_def an)
    have "description d = acc_description (doc_of (ce # cs))"
      by (subst dm) (simp add: make_document_fields)
    then have 3: "description d =
        first_non_empty (map (\<lambda>ce. entry_api_description (snd ce)) ((c, e) # cs))"
      by (simp add: doc_of_description first_description_eq ce comp_def)
    from cs 1 2 3 show ?thesis
      unfolding ce by blast
  qed
  have step: "\<forall>c e a. options_iterable e \<longrightarrow>
        (\<exists>a'. merge_doc c e a = Inr a' \<and>
           acc_documentNumber a' = acc_documentNumber a \<and>
           acc_apiName a' = acc_apiName a \<and>
           (acc_description a \<noteq> [] \<longrightarrow> acc_description a' = acc_description a))"
    by (simp add: merge_doc_eq merged_doc_description first_wins_def)
  have "\<exists>docs. normaliseResources P p = Inr docs \<and>
       (\<forall>d \<in> set docs. \<exists>c e rest.
          contributors ?es (key d) = (c, e) # rest \<and>
          documentNumber d = key d \<and>
          apiName d = or_else (entry_api_name e) (key d) \<and>
          description d = first_non_empty (map (\<lambda>ce. entry_api_description (snd ce)) ((c, e) # rest)))"
    using n each by (intro exI [of _ ?docs]) blast
  with step show ?thesis by (rule conjI [rotated])
qed

text \<open>
  The claim as stated gives every field the first non-empty value among the contributing
  entries. In \<open>catalog_payload\<close> the first entry of the key has no API name and the second has
  "Product Catalog"; the document gets the API name "TMF620".
\<close>

theorem later_api_name_counterexample:
  "map apiName (projr (normaliseResources sample_platform catalog_payload)) = [''TMF620''] \<and>
   map (entry_api_name \<circ> snd) (flat_entries catalog_payload) = [None, Some ''Product Catalog''] \<and>
   first_non_empty (map (entry_api_name \<circ> snd) (flat_entries catalog_payload)) = ''Product Catalog''"
  by code_simp

theorem first_value_wins_witness:
  "all_arrays catalog_payload \<and> all_iterable catalog_payload \<and>
   (\<exists>docs. normaliseResources sample_platform catalog_payload = Inr docs \<and>
      map description docs = [''Catalog management''] \<and> map apiName docs = [''TMF620''])"
proof -
  from first_value_wins [OF all_arrays_samples(2) all_iterable_samples(2), of sample_platform]
  obtain docs where d: "normaliseResources sample_platform catalog_payload = Inr docs"
    by blast
  have "map description (projr (normaliseResources sample_platform catalog_payload)) =
      [''Catalog management''] \<and>
    map apiName (projr (normaliseResources sample_platform catalog_payload)) = [''TMF620'']"
    by code_simp
  with d all_arrays_samples(2) all_iterable_samples(2) show ?thesis by simp
qed

text \<open>
  Claim C8. As amended: \<open>normaliseResources\<close> returns a list of documents for every payload in
  which each group value is an array and the options of each entry can be iterated (they are
  absent, an array, \<open>false\<close>, zero or the empty string), each scalar field that is present
  being a string; this includes a null payload and a null category, which give the empty list, null
  entries, and entries missing any or all fields. Every absent field is resolved to its
  default. Each entry has a document whose key and document number are the key of the entry,
  "Untitled" when nothing names it. The description of a document is the first description
  given by the entries of its key, and empty when none gives one; its categories, contexts
  and lifecycle values are empty when no entry of its key names a category, a context or a
  lifecycle status. Its versions are labelled by the version labels of the entries of its
  key, "Unversioned" standing for an absent label; release, lifecycle, published date and
  notes of a version are the first value given by the entries of its key and label, and
  empty when none gives one; and its options are the options of these entries, sorted, each
  with the name "Download" and empty strings for what its raw option does not give. A
  payload in which a group value is a string or a number, or in which the options of an
  entry cannot be iterated (\<open>true\<close>, a number other than zero, a non-empty string, an
  object), raises a \<open>TypeError\<close>.
\<close>

theorem normalise_total_on_arrays:
  "normaliseResources P PNull = Inr [] \<and>
   normaliseResources P (PObject [(c, CNull)]) = Inr [] \<and>
   (scalar_group p \<or> \<not> all_iterable p \<longrightarrow> normaliseResources P p = Inl TypeError) \<and>
   (all_arrays p \<and> all_iterable p \<longrightarrow>
      (\<exists>docs. normaliseResources P p = Inr docs \<and>
         (\<forall>ce \<in> set (flat_entries p). \<exists>d \<in> set docs.
            key d = spec_key (snd ce) \<and> documentNumber d = spec_key (snd ce)) \<and>
         (\<forall>d \<in> set docs.
            description d =
              first_non_empty
                (map (\<lambda>ce. Option.bind (Option.bind (snd ce) api_description) api_desc.api_description)
                  (contributors (flat_entries p) (key d))) \<and>
            ((\<forall>ce \<in> set (contributors (flat_entries p) (key d)). fst ce = []) \<longrightarrow>
               categories d = []) \<and>
            ((\<forall>ce \<in> set (contributors (flat_entries p) (key d)).
                 absent (Option.bind (snd ce) entry_context)) \<longrightarrow> contexts d = []) \<and>
            ((\<forall>ce \<in> set (contributors (flat_entries p) (key d)).
                 absent (Option.bind (snd ce) lifecycle_status)) \<longrightarrow> lifecycle d = []) \<and>
            version ` set (versions d) =
              version_label ` snd ` set (contributors (flat_entries p) (key d)) \<and>
            (\<forall>v \<in> set (versions d).
               version_entries p (key d) (version v) \<noteq> [] \<and>
               release v =
                 first_non_empty (map (\<lambda>e. Option.bind e release_info)
                   (version_entries p (key d) (version v))) \<and>
               v_lifecycle v =
                 first_non_empty (map (\<lambda>e. Option.bind e lifecycle_status)
                   (version_entries p (key d) (version v))) \<and>
               published v =
                 first_non_empty (map (\<lambda>e. Option.bind e published_date)
                   (version_entries p (key d) (version v))) \<and>
               v_notes v =
                 first_non_empty (map (\<lambda>e. Option.bind e entry_notes)
                   (version_entries p (key d) (version v))) \<and>
               v_options v =
                 sort_by (option_cmp P)
                   (map default_option
                     (concat (map option_items (version_entries p (key d) (version v)))))))))"
proof (intro conjI impI)
  show "normaliseResources P PNull = Inr []"
    by (simp add: normaliseResources_def payload_entries_def sort_by_def)
  show "normaliseResources P (PObject [(c, CNull)]) = Inr []"
    by (simp add: normaliseResources_def payload_entries_def category_values_def sort_by_def)
  show "normaliseResources P p = Inl TypeError" if "scalar_group p \<or> \<not> all_iterable p"
  proof -
    from that have "\<not> (all_arrays p \<and> all_iterable p)"
      using scalar_not_arrays [of p] by blast
    then show ?thesis
      by (rule normalise_error)
  qed
next
  assume a: "all_arrays p \<and> all_iterable p"
  let ?es = "flat_entries p"
  let ?docs = "sort_by (document_cmp P) (build_documents P (fold_all ?es []) [])"
  have n: "normaliseResources P p = Inr ?docs"
    using a by (simp add: normalise_all_arrays)
  have keys: "\<forall>ce \<in> set ?es. \<exists>d \<in> set ?docs.
      key d = spec_key (snd ce) \<and> documentNumber d = spec_key (snd ce)"
  proof
    fix ce assume "ce \<in> set ?es"
    from document_for_entry [OF this, of P]
    show "\<exists>d \<in> set ?docs. key d = spec_key (snd ce) \<and> documentNumber d = spec_key (snd ce)"
      by (simp only: entry_key_spec)
  qed
  have each: "description d =
        first_non_empty
          (map (\<lambda>ce. Option.bind (Option.bind (snd ce) api_description) api_desc.api_description)
            (contributors ?es (key d))) \<and>
      ((\<forall>ce \<in> set (contributors ?es (key d)). fst ce = []) \<longrightarrow> categories d = []) \<and>
      ((\<forall>ce \<in> set (contributors ?es (key d)).
           absent (Option.bind (snd ce) entry_context)) \<longrightarrow> contexts d = []) \<and>
      ((\<forall>ce \<in> set (contributors ?es (key d)).
           absent (Option.bind (snd ce) lifecycle_status)) \<longrightarrow> lifecycle d = []) \<and>
      version ` set (versions d) = version_label ` snd ` set (contributors ?es (key d)) \<and>
      (\<forall>v \<in> set (versions d).
         version_entries p (key d) (version v) \<noteq> [] \<and>
         release v =
           first_non_empty (map (\<lambda>e. Option.bind e release_info)
             (version_entries p (key d) (version v))) \<and>
         v_lifecycle v =
           first_non_empty (map (\<lambda>e. Option.bind e lifecycle_status)
             (version_entries p (key d) (version v))) \<and>
         published v =
           first_non_empty (map (\<lambda>e. Option.bind e published_date)
             (version_entries p (key d) (version v))) \<and>
         v_notes v =
           first_non_empty (map (\<lambda>e. Option.bind e entry_notes)
             (version_entries p (key d) (version v))) \<and>
         v_options v =
           sort_by (option_cmp P)
             (map default_option
               (concat (map option_items (version_entries p (key d) (version v))))))"
    if d: "d \<in> set ?docs" for d
  proof (intro conjI impI ballI)
    note f = normalised_fields [OF d]
    show "description d =
        first_non_empty
          (map (\<lambda>ce. Option.bind (Option.bind (snd ce) api_description) api_desc.api_description)
            (contributors ?es (key d)))"
      by (rule f(1))
    show "categories d = []" if "\<forall>ce \<in> set (contributors ?es (key d)). fst ce = []"
    proof -
      from that have "{c \<in> fst ` set (contributors ?es (key d)). c \<noteq> []} = {}"
        by auto
      then have "set (categories d) = {}"
        by (simp only: f(2))
      then show ?thesis by simp
    qed
    show "contexts d = []"
      if "\<forall>ce \<in> set (contributors ?es (key d)). absent (Option.bind (snd ce) entry_context)"
    proof -
      from that have "(\<Union>x \<in> set (contributors ?es (key d)). set (context_values (snd x))) = {}"
        by (simp add: context_values_absent)
      then have "set (contexts d) = {}"
        by (simp only: f(3))
      then show ?thesis by simp
    qed
    show "lifecycle d = []"
      if "\<forall>ce \<in> set (contributors ?es (key d)). absent (Option.bind (snd ce) lifecycle_status)"
    proof -
      from that have "(\<Union>x \<in> set (contributors ?es (key d)). set (lifecycle_values (snd x))) = {}"
        by (simp add: lifecycle_values_absent)
      then have "set (lifecycle d) = {}"
        by (simp only: f(4))
      then show ?thesis by simp
    qed
    from f(5) obtain doc where vd: "versions d = sorted_versions P doc"
      and av: "acc_versions doc =
        foldl (\<lambda>vs e. merged_versions e vs) [] (map snd (contributors ?es (key d)))"
      by blast
    have "version ` set (versions d) = version_label ` set (map snd (contributors ?es (key d)))"
      unfolding vd using av by (rule sorted_versions_labels)
    then show "version ` set (versions d) = version_label ` snd ` set (contributors ?es (key d))"
      by simp
    fix v assume "v \<in> set (versions d)"
    then have v: "v \<in> set (sorted_versions P doc)"
      by (simp only: vd)
    have ve: "version_entries p (key d) (version v) =
        filter (\<lambda>e. version_label e = version v) (map snd (contributors ?es (key d)))"
      by (simp add: version_entries_def)
    note sv = sorted_versions_fields [OF av v ve]
    show "version_entries p (key d) (version v) \<noteq> []"
      using sv by blast
    show "release v =
        first_non_empty (map (\<lambda>e. Option.bind e release_info)
          (version_entries p (key d) (version v)))"
      using sv by blast
    show "v_lifecycle v =
        first_non_empty (map (\<lambda>e. Option.bind e lifecycle_status)
          (version_entries p (key d) (version v)))"
      using sv by blast
    show "published v =
        first_non_empty (map (\<lambda>e. Option.bind e published_date)
          (version_entries p (key d) (version v)))"
      using sv by blast
    show "v_notes v =
        first_non_empty (map (\<lambda>e. Option.bind e entry_notes)
          (version_entries p (key d) (version v)))"
      using sv by blast
    show "v_options v =
        sort_by (option_cmp P)
          (map default_option
            (concat (map option_items (version_entries p (key d) (version v)))))"
      using sv by blast
  qed
  show "\<exists>docs. normaliseResources P p = Inr docs \<and>
         (\<forall>ce \<in> set (flat_entries p). \<exists>d \<in> set docs.
            key d = spec_key (snd ce) \<and> documentNumber d = spec_key (snd ce)) \<and>
         (\<forall>d \<in> set docs.
            description d =
              first_non_empty
                (map (\<lambda>ce. Option.bind (Option.bind (snd ce) api_description) api_desc.api_description)
                  (contributors (flat_entries p) (key d))) \<and>
            ((\<forall>ce \<in> set (contributors (flat_entries p) (key d)). fst ce = []) \<longrightarrow>
               categories d = []) \<and>
            ((\<forall>ce \<in> set (contributors (flat_entries p) (key d)).
                 absent (Option.bind (snd ce) entry_context)) \<longrightarrow> contexts d = []) \<and>
            ((\<forall>ce \<in> set (contributors (flat_entries p) (key d)).
                 absent (Option.bind (snd ce) lifecycle_status)) \<longrightarrow> lifecycle d = []) \<and>
            version ` set (versions d) =
              version_label ` snd ` set (contributors (flat_entries p) (key d)) \<and>
            (\<forall>v \<in> set (versions d).
               version_entries p (key d) (version v) \<noteq> [] \<and>
               release v =
                 first_non_empty (map (\<lambda>e. Option.bind e release_info)
                   (version_entries p (key d) (version v))) \<and>
               v_lifecycle v =
                 first_non_empty (map (\<lambda>e. Option.bind e lifecycle_status)
                   (version_entries p (key d) (version v))) \<and>
               published v =
                 first_non_empty (map (\<lambda>e. Option.bind e published_date)
                   (version_entries p (key d) (version v))) \<and>
               v_notes v =
                 first_non_empty (map (\<lambda>e. Option.bind e entry_notes)
                   (version_entries p (key d) (version v))) \<and>
               v_options v =
                 sort_by (option_cmp P)
                   (map default_option
                     (concat (map option_items (version_entries p (key d) (version v)))))))"
  proof (rule exI [of _ ?docs], intro conjI)
    show "normaliseResources P p = Inr ?docs" by (rule n)
    show "\<forall>ce \<in> set ?es. \<exists>d \<in> set ?docs.
      key d = spec_key (snd ce) \<and> documentNumber d = spec_key (snd ce)" by (rule keys)
  next
    show "\<forall>d \<in> set ?docs.
            description d =
              first_non_empty
                (map (\<lambda>ce. Option.bind (Option.bind (snd ce) api_description) api_desc.api_description)
                  (contributors (flat_entries p) (key d))) \<and>
            ((\<forall>ce \<in> set (contributors (flat_entries p) (key d)). fst ce = []) \<longrightarrow>
               categories d = []) \<and>
            ((\<forall>ce \<in> set (contributors (flat_entries p) (key d)).
                 absent (Option.bind (snd ce) entry_context)) \<longrightarrow> contexts d = []) \<and>
            ((\<forall>ce \<in> set (contributors (flat_entries p) (key d)).
                 absent (Option.bind (snd ce) lifecycle_status)) \<longrightarrow> lifecycle d = []) \<and>
            version ` set (versions d) =
              version_label ` snd ` set (contributors (flat_entries p) (key d)) \<and>
            (\<forall>v \<in> set (versions d).
               version_entries p (key d) (version v) \<noteq> [] \<and>
               release v =
                 first_non_empty (map (\<lambda>e. Option.bind e release_info)
                   (version_entries p (key d) (version v))) \<and>
               v_lifecycle v =
                 first_non_empty (map (\<lambda>e. Option.bind e lifecycle_status)
                   (version_entries p (key d) (version v))) \<and>
               published v =
                 first_non_empty (map (\<lambda>e. Option.bind e published_date)
                   (version_entries p (key d) (version v))) \<and>
               v_notes v =
                 first_non_empty (map (\<lambda>e. Option.bind e entry_notes)
                   (version_entries p (key d) (version v))) \<and>
               v_options v =
                 sort_by (option_cmp P)
                   (map default_option
                     (concat (map option_items (version_entries p (key d) (version v))))))"
      using each by (intro ballI)
  qed
qed

text \<open>
  The claim as stated includes groups whose value is not an array and entries with
  malformed fields. A group whose value is a string has no \<open>forEach\<close>, and the call raises a
  \<open>TypeError\<close>; so does the entry \<open>{"document_number": "TMF620", "options": {"name": "Spec"}}\<close>,
  whose options are an object.
\<close>

theorem string_group_counterexample:
  "normaliseResources sample_platform pending_group_payload = Inl TypeError \<and>
   normaliseResources sample_platform options_object_payload = Inl TypeError \<and>
   all_arrays options_object_payload"
  by code_simp

theorem normalise_total_on_arrays_witness:
  "all_arrays partial_payload \<and> all_iterable partial_payload \<and>
   (\<exists>docs. normaliseResources sample_platform partial_payload = Inr docs \<and>
      map key docs = [''TMF620''] \<and>
      map description docs = [[]] \<and> map categories docs = [[]] \<and>
      map contexts docs = [[]] \<and> map lifecycle docs = [[]] \<and>
      map (map version \<circ> versions) docs = [[''Unversioned'']] \<and>
      map (map release \<circ> versions) docs = [[''R19'']] \<and>
      map (map published \<circ> versions) docs = [[[]]] \<and>
      map (map (map dl_name \<circ> v_options) \<circ> versions) docs = [[[''Download'', ''Download'']]] \<and>
      map (map (map dl_type \<circ> v_options) \<circ> versions) docs = [[[[], ''pdf'']]]) \<and>
   scalar_group pending_group_payload \<and>
   normaliseResources sample_platform pending_group_payload = Inl TypeError \<and>
   \<not> all_iterable options_object_payload \<and>
   normaliseResources sample_platform options_object_payload = Inl TypeError"
proof -
  have a: "all_arrays partial_payload \<and> all_iterable partial_payload"
    using all_arrays_samples(6) all_iterable_samples(6) by (rule conjI)
  from normalise_total_on_arrays [of sample_platform "[]" partial_payload, THEN conjunct2,
      THEN conjunct2, THEN conjunct2, rule_format, OF a]
  obtain docs where d: "normaliseResources sample_platform partial_payload = Inr docs"
    by blast
  have "map key (projr (normaliseResources sample_platform partial_payload)) = [''TMF620''] \<and>
      map description (projr (normaliseResources sample_platform partial_payload)) = [[]] \<and>
      map categories (projr (normaliseResources sample_platform partial_payload)) = [[]] \<and>
      map contexts (projr (normaliseResources sample_platform partial_payload)) = [[]] \<and>
      map lifecycle (projr (normaliseResources sample_platform partial_payload)) = [[]] \<and>
      map (map version \<circ> versions) (projr (normaliseResources sample_platform partial_payload)) =
        [[''Unversioned'']] \<and>
      map (map release \<circ> versions) (projr (normaliseResources sample_platform partial_payload)) =
        [[''R19'']] \<and>
      map (map published \<circ> versions) (projr (normaliseResources sample_platform partial_payload)) =
        [[[]]] \<and>
      map (map (map dl_name \<circ> v_options) \<circ> versions)
          (projr (normaliseResources sample_platform partial_payload)) =
        [[[''Download'', ''Download'']]] \<and>
      map (map (map dl_type \<circ> v_options) \<circ> versions)
          (projr (normaliseResources sample_platform partial_payload)) =
        [[[[], ''pdf'']]]"
    by code_simp
  with d have 1: "\<exists>docs. normaliseResources sample_platform partial_payload = Inr docs \<and>
      map key docs = [''TMF620''] \<and>
      map description docs = [[]] \<and> map categories docs = [[]] \<and>
      map contexts docs = [[]] \<and> map lifecycle docs = [[]] \<and>
      map (map version \<circ> versions) docs = [[''Unversioned'']] \<and>
      map (map release \<circ> versions) docs = [[''R19'']] \<and>
      map (map published \<circ> versions) docs = [[[]]] \<and>
      map (map (map dl_name \<circ> v_options) \<circ> versions) docs = [[[''Download'', ''Download'']]] \<and>
      map (map (map dl_type \<circ> v_options) \<circ> versions) docs = [[[[], ''pdf'']]]"
    by simp
  have s: "scalar_group pending_group_payload"
    by code_simp
  have i: "\<not> all_iterable options_object_payload"
    by code_simp
  from s have 2: "normaliseResources sample_platform pending_group_payload = Inl TypeError"
    using normalise_total_on_arrays [of sample_platform "[]" pending_group_payload]
    by blast
  from i have 3: "normaliseResources sample_platform options_object_payload = Inl TypeError"
    using normalise_total_on_arrays [of sample_platform "[]" options_object_payload]
    by blast
  from a 1 s 2 i 3 show ?thesis
    by (intro conjI) blast+
qed

text \<open>
  Claim C9. The loader tries the sources in order. When an attempt succeeds and all attempts
  before it failed, it returns the data and the source of that attempt and has fetched no
  later source; when every attempt fails it raises the failure of the last source. An attempt
  succeeds exactly when the fetch gives a response with success status whose body is read
  and parses. The sources are the index URL and two proxy URLs derived from it.
\<close>

theorem loader_fallback:
  "(\<forall>i<length getApiSources.
      (\<forall>j<i. isl (try_source fetch json_parse (getApiSources ! j))) \<longrightarrow>
      try_source fetch json_parse (getApiSources ! i) = Inr data \<longrightarrow>
      loadPayload fetch json_parse = (take (Suc i) getApiSources, Inr (data, getApiSources ! i))) \<and>
   ((\<forall>src \<in> set getApiSources. isl (try_source fetch json_parse src)) \<longrightarrow>
      loadPayload fetch json_parse =
        (getApiSources, Inl (projl (try_source fetch json_parse (last getApiSources))))) \<and>
   (try_source fetch json_parse src = Inr data \<longleftrightarrow>
      (\<exists>r body. fetch src = Inr r \<and> ok r \<and> body_text r = Inr body \<and> json_parse body = Inr data)) \<and>
   getApiSources =
     [''./index.json'', ''https://corsproxy.io/?.%2Findex.json'', ''https://r.jina.ai/./index.json'']"
proof (intro conjI allI impI)
  fix i
  assume "i < length getApiSources"
    "\<forall>j<i. isl (try_source fetch json_parse (getApiSources ! j))"
    "try_source fetch json_parse (getApiSources ! i) = Inr data"
  then show "loadPayload fetch json_parse = (take (Suc i) getApiSources, Inr (data, getApiSources ! i))"
    unfolding loadPayload_def by (rule load_from_first_success)
next
  assume a: "\<forall>src \<in> set getApiSources. isl (try_source fetch json_parse src)"
  have "getApiSources \<noteq> []" by (simp add: getApiSources_def)
  with a show "loadPayload fetch json_parse =
        (getApiSources, Inl (projl (try_source fetch json_parse (last getApiSources))))"
    unfolding loadPayload_def by (rule load_from_all_fail)
next
  show "try_source fetch json_parse src = Inr data \<longleftrightarrow>
      (\<exists>r body. fetch src = Inr r \<and> ok r \<and> body_text r = Inr body \<and> json_parse body = Inr data)"
    by (rule try_source_success)
next
  show "getApiSources =
     [''./index.json'', ''https://corsproxy.io/?.%2Findex.json'', ''https://r.jina.ai/./index.json'']"
    by (rule getApiSources_value)
qed

theorem loader_fallback_witness:
  "loadPayload blocked_fetch tiny_parse =
     ([''./index.json'', ''https://corsproxy.io/?.%2Findex.json''],
      Inr (PObject [], ''https://corsproxy.io/?.%2Findex.json'')) \<and>
   loadPayload refusing_fetch tiny_parse =
     (getApiSources, Inl (Error ''Request failed with 403''))"
proof -
  have len: "1 < length getApiSources"
    by (simp add: getApiSources_value)
  have before: "\<forall>j<1. isl (try_source blocked_fetch tiny_parse (getApiSources ! j))"
    by (simp add: getApiSources_value try_source_def blocked_fetch_def)
  have hit: "try_source blocked_fetch tiny_parse (getApiSources ! 1) = Inr (PObject [])"
    by (simp add: getApiSources_value try_source_def blocked_fetch_def tiny_parse_def)
  have fail: "\<forall>src \<in> set getApiSources. isl (try_source refusing_fetch tiny_parse src)"
    by (simp add: try_source_def refusing_fetch_def)
  have lasterr: "projl (try_source refusing_fetch tiny_parse (last getApiSources)) =
      Error ''Request failed with 403''"
    by code_simp
  have 1: "loadPayload blocked_fetch tiny_parse =
      (take (Suc 1) getApiSources, Inr (PObject [], getApiSources ! 1))"
    using loader_fallback [of blocked_fetch tiny_parse "PObject []"] len before hit by blast
  have 2: "loadPayload refusing_fetch tiny_parse =
      (getApiSources, Inl (projl (try_source refusing_fetch tiny_parse (last getApiSources))))"
    using loader_fallback [of refusing_fetch tiny_parse] fail by blast
  from 1 2 lasterr show ?thesis
    by (simp add: getApiSources_value)
qed

text \<open>
  Claim C10. While the document collection is empty, \<open>renderRoute\<close> keeps the route, the
  fragment, the pending events, the banner and the content of the detail view as they are,
  for a detail route as for any other: no redirect to the index and no notice.
\<close>

theorem empty_collection_skips_reconciliation:
  assumes "documents s = []"
  shows "route (renderRoute s) = route s \<and>
    location_hash (renderRoute s) = location_hash s \<and>
    pending_hashchange (renderRoute s) = pending_hashchange s \<and>
    same_status s (renderRoute s) \<and>
    detail_content (renderRoute s) = detail_content s"
  using assms by (simp add: renderRoute_empty same_status_def)

theorem empty_collection_skips_reconciliation_witness:
  "documents ((initial_app ''#/document/tmf620'')\<lparr>route := detail_route ''tmf620''\<rparr>) = [] \<and>
   route (renderRoute ((initial_app ''#/document/tmf620'')\<lparr>route := detail_route ''tmf620''\<rparr>)) =
     detail_route ''tmf620'' \<and>
   location_hash (renderRoute ((initial_app ''#/document/tmf620'')\<lparr>route := detail_route ''tmf620''\<rparr>)) =
     ''#/document/tmf620'' \<and>
   pending_hashchange (renderRoute ((initial_app ''#/document/tmf620'')\<lparr>route := detail_route ''tmf620''\<rparr>)) = 0 \<and>
   status_hidden (renderRoute ((initial_app ''#/document/tmf620'')\<lparr>route := detail_route ''tmf620''\<rparr>))"
proof -
  let ?s = "(initial_app ''#/document/tmf620'')\<lparr>route := detail_route ''tmf620''\<rparr>"
  have h: "documents ?s = []" by (simp add: initial_app_def)
  from empty_collection_skips_reconciliation [OF h] h show ?thesis
    by (simp add: initial_app_def same_status_def)
qed

end
